theory Spec2Isabelle
  imports Complex_Main "HOL-Library.Log_Nat"
begin

section \<open>Flight data processor: data model\<close>

text \<open>
  The model follows the class \<open>FlightDataProcessor\<close> of the flight-data library.
  JavaScript numbers that hold integers (delays, hours, counts, epoch milliseconds) are
  modelled as \<open>int\<close> or \<open>nat\<close>. A number that results from \<open>+\<close>, \<open>*\<close> or \<open>/\<close> on
  numbers is a double: the rational value of the 64-bit binary floating-point number, or
  one of the non-finite values, with every operation rounded to the nearest double as
  IEEE 754 prescribes.
\<close>

datatype FlightStatus = SCHEDULED | DELAYED | DEPARTED | ARRIVED | CANCELLED

text \<open>A \<open>Date\<close> field of a record, kept as the local date-time string it is built from.\<close>

datatype jsdate = DateOf string

record ProcessedFlightData =
  id_field :: string
  flightNumber :: string
  origin :: string
  destination :: string
  scheduledDeparture :: jsdate
  scheduledArrival :: jsdate
  actualDeparture :: "jsdate option"
  actualArrival :: "jsdate option"
  status :: FlightStatus
  delayMinutes :: "int option"
  aircraft :: "string option"
  airportCode :: string
  scheduledHour :: int
  dayOfWeek :: int
  flightDuration :: int

text \<open>The value of a JavaScript arithmetic expression: a finite double, \<open>NaN\<close> or an infinity.\<close>

datatype number = Num rat | NaN | PosInfinity | NegInfinity

record DelayDistribution =
  minor :: nat
  major :: nat
  critical :: nat

record AirportStatistics =
  totalFlights :: nat
  delayedFlights :: nat
  avgDelay :: number
  peakHour :: int
  peakFlights :: nat
  delayDistribution :: DelayDistribution
  capacityUtilization :: number

record PeakHourAnalysis =
  hour :: int
  flightCount :: nat
  utilization :: number

text \<open>
  The two private maps of the processor. \<open>lastUpdated\<close> holds the epoch milliseconds of
  the stored \<open>Date\<close> (only \<open>getTime()\<close> is ever read from it).
\<close>

record FlightDataProcessor =
  dataCache :: "string \<rightharpoonup> ProcessedFlightData list"
  lastUpdated :: "string \<rightharpoonup> int"

section \<open>JavaScript arithmetic\<close>

text \<open>
  Rounding to the nearest double. For \<open>x > 0\<close>, \<open>expo x\<close> is the exponent \<open>e\<close> with
  \<open>2^e \<le> x < 2^(e+1)\<close>, computed from the bit lengths of numerator and denominator. The
  doubles around \<open>x\<close> are the multiples of \<open>2^(grid x)\<close>: 53 significant bits in the normal
  range, multiples of \<open>2^-1074\<close> in the subnormal range. \<open>fl64 x\<close> is the nearest of
  them, a tie going to the even multiple; \<open>double x\<close> is the number an operation with the
  exact result \<open>x\<close> returns, which is an infinity when the rounded value leaves the range
  of the finite doubles.
\<close>

definition expo :: "rat \<Rightarrow> int" where
  "expo x = (case quotient_of x of (a, b) \<Rightarrow>
     let k = bitlen a - bitlen b in if 2 powi k \<le> x then k else k - 1)"

definition round_half_even :: "rat \<Rightarrow> int" where
  "round_half_even z =
     (let n = \<lfloor>z\<rfloor>; f = z - of_int n
      in if f < 1 / 2 then n else if 1 / 2 < f then n + 1 else if even n then n else n + 1)"

definition grid :: "rat \<Rightarrow> int" where
  "grid x = max (expo \<bar>x\<bar> - 52) (- 1074)"

definition fl64 :: "rat \<Rightarrow> rat" where
  "fl64 x = (if x = 0 then 0 else of_int (round_half_even (x / 2 powi grid x)) * 2 powi grid x)"

definition double :: "rat \<Rightarrow> number" where
  "double x =
     (let y = fl64 x
      in if 2 ^ 1024 \<le> y then PosInfinity else if y \<le> - (2 ^ 1024) then NegInfinity else Num y)"

text \<open>
  \<open>a / b\<close>: a zero divisor gives \<open>NaN\<close> for \<open>0 / 0\<close> and an infinity otherwise, never an
  exception. The sign of a zero is not modelled: a zero divisor is taken as \<open>+0\<close> (every
  divisor of the program is a count or a positive constant).
\<close>

fun num_div :: "number \<Rightarrow> number \<Rightarrow> number" where
  "num_div (Num a) (Num b) =
     (if b = 0 then (if a = 0 then NaN else if 0 < a then PosInfinity else NegInfinity)
      else double (a / b))"
| "num_div NaN y = NaN"
| "num_div x NaN = NaN"
| "num_div (Num a) PosInfinity = Num 0"
| "num_div (Num a) NegInfinity = Num 0"
| "num_div PosInfinity (Num b) = (if 0 \<le> b then PosInfinity else NegInfinity)"
| "num_div NegInfinity (Num b) = (if 0 \<le> b then NegInfinity else PosInfinity)"
| "num_div PosInfinity PosInfinity = NaN"
| "num_div PosInfinity NegInfinity = NaN"
| "num_div NegInfinity PosInfinity = NaN"
| "num_div NegInfinity NegInfinity = NaN"

fun num_mul :: "number \<Rightarrow> number \<Rightarrow> number" where
  "num_mul (Num a) (Num b) = double (a * b)"
| "num_mul NaN y = NaN"
| "num_mul x NaN = NaN"
| "num_mul (Num a) PosInfinity = (if a = 0 then NaN else if 0 < a then PosInfinity else NegInfinity)"
| "num_mul (Num a) NegInfinity = (if a = 0 then NaN else if 0 < a then NegInfinity else PosInfinity)"
| "num_mul PosInfinity (Num b) = (if b = 0 then NaN else if 0 < b then PosInfinity else NegInfinity)"
| "num_mul NegInfinity (Num b) = (if b = 0 then NaN else if 0 < b then NegInfinity else PosInfinity)"
| "num_mul PosInfinity PosInfinity = PosInfinity"
| "num_mul PosInfinity NegInfinity = NegInfinity"
| "num_mul NegInfinity PosInfinity = NegInfinity"
| "num_mul NegInfinity NegInfinity = PosInfinity"

fun num_add :: "number \<Rightarrow> number \<Rightarrow> number" where
  "num_add (Num a) (Num b) = double (a + b)"
| "num_add NaN y = NaN"
| "num_add x NaN = NaN"
| "num_add (Num a) PosInfinity = PosInfinity"
| "num_add (Num a) NegInfinity = NegInfinity"
| "num_add PosInfinity (Num b) = PosInfinity"
| "num_add NegInfinity (Num b) = NegInfinity"
| "num_add PosInfinity PosInfinity = PosInfinity"
| "num_add PosInfinity NegInfinity = NaN"
| "num_add NegInfinity PosInfinity = NaN"
| "num_add NegInfinity NegInfinity = NegInfinity"

text \<open>
  \<open>Math.round\<close>: the nearest integer, a tie going up, computed exactly (the result is a
  double whenever the argument is); non-finite values are returned as they are.
\<close>

fun math_round :: "number \<Rightarrow> number" where
  "math_round (Num a) = Num (of_int \<lfloor>a + 1 / 2\<rfloor>)"
| "math_round x = x"

text \<open>\<open>Math.max(...values)\<close>: \<open>-Infinity\<close> when there is no argument.\<close>

fun math_max :: "nat list \<Rightarrow> number" where
  "math_max [] = NegInfinity"
| "math_max (x # xs) = (case math_max xs of Num m \<Rightarrow> Num (max (of_nat x) m) | other \<Rightarrow> Num (of_nat x))"

text \<open>\<open>x || 0\<close> on an optional number: \<open>undefined\<close> (and \<open>0\<close>) give \<open>0\<close>.\<close>

definition orZero :: "int option \<Rightarrow> int" where
  "orZero x = (case x of None \<Rightarrow> 0 | Some d \<Rightarrow> d)"

text \<open>\<open>Math.round(x * 100) / 100\<close>.\<close>

definition round2 :: "number \<Rightarrow> number" where
  "round2 x = num_div (math_round (num_mul x (Num 100))) (Num 100)"

section \<open>Insertion-ordered maps and the stable sort\<close>

text \<open>
  A JavaScript \<open>Map\<close> iterates in insertion order, so \<open>hourlyCounts\<close> is an association
  list: \<open>set\<close> replaces the value of a key in place and appends a new key at the end.
\<close>

fun map_set :: "'k \<Rightarrow> 'v \<Rightarrow> ('k \<times> 'v) list \<Rightarrow> ('k \<times> 'v) list" where
  "map_set k v [] = [(k, v)]"
| "map_set k v (p # ps) = (if fst p = k then (k, v) # ps else p # map_set k v ps)"

text \<open>
  \<open>Array.prototype.sort(compare)\<close> is stable: an element moves in front of another only
  when the comparator is positive for the pair in their current order.
\<close>

fun insert_by :: "('a \<Rightarrow> 'a \<Rightarrow> int) \<Rightarrow> 'a \<Rightarrow> 'a list \<Rightarrow> 'a list" where
  "insert_by cmp x [] = [x]"
| "insert_by cmp x (y # ys) = (if cmp x y \<le> 0 then x # y # ys else y # insert_by cmp x ys)"

definition array_sort :: "('a \<Rightarrow> 'a \<Rightarrow> int) \<Rightarrow> 'a list \<Rightarrow> 'a list" where
  "array_sort cmp xs = foldr (insert_by cmp) xs []"

section \<open>Statistics over a flight log\<close>

text \<open>The \<open>forEach\<close> that fills \<open>hourlyCounts\<close> (the same loop in both statistics methods).\<close>

definition countStep :: "(int \<times> nat) list \<Rightarrow> ProcessedFlightData \<Rightarrow> (int \<times> nat) list" where
  "countStep hourlyCounts f =
     (let count = (case map_of hourlyCounts (scheduledHour f) of None \<Rightarrow> 0 | Some c \<Rightarrow> c)
      in map_set (scheduledHour f) (count + 1) hourlyCounts)"

definition countHours :: "ProcessedFlightData list \<Rightarrow> (int \<times> nat) list" where
  "countHours flightData = foldl countStep [] flightData"

text \<open>The \<open>forEach\<close> over \<open>hourlyCounts\<close> that keeps the first strictly greater count.\<close>

definition peakStep :: "int \<times> nat \<Rightarrow> int \<times> nat \<Rightarrow> int \<times> nat" where
  "peakStep peak entry = (if snd entry > snd peak then entry else peak)"

definition findPeak :: "(int \<times> nat) list \<Rightarrow> int \<times> nat" where
  "findPeak hourlyCounts = foldl peakStep (0, 0) hourlyCounts"

definition absDelay :: "ProcessedFlightData \<Rightarrow> int" where
  "absDelay f = \<bar>orZero (delayMinutes f)\<bar>"

text \<open>The body of \<open>getAirportStatistics\<close> after the flight log has been obtained.\<close>

definition airportStatisticsOf :: "ProcessedFlightData list \<Rightarrow> AirportStatistics" where
  "airportStatisticsOf flightData =
     (let total = length flightData;
          delayed = length (filter (\<lambda>f. case delayMinutes f of None \<Rightarrow> False | Some d \<Rightarrow> d \<noteq> 0 \<and> d > 0) flightData);
          avg = num_div (foldl (\<lambda>sum f. num_add sum (Num (of_int (orZero (delayMinutes f)))))
                               (Num 0) flightData)
                        (Num (of_nat total));
          peak = findPeak (countHours flightData);
          distribution = \<lparr> minor = length (filter (\<lambda>f. absDelay f < 15) flightData),
                           major = length (filter (\<lambda>f. absDelay f \<ge> 15 \<and> absDelay f < 60) flightData),
                           critical = length (filter (\<lambda>f. absDelay f \<ge> 60) flightData) \<rparr>;
          capacity = num_mul (num_div (Num (of_nat total))
                                      (num_mul (Num (of_nat (snd peak))) (Num 24)))
                             (Num 100)
      in \<lparr> totalFlights = total,
           delayedFlights = delayed,
           avgDelay = round2 avg,
           peakHour = fst peak,
           peakFlights = snd peak,
           delayDistribution = distribution,
           capacityUtilization = round2 capacity \<rparr>)"

text \<open>The body of \<open>getPeakHourAnalysis\<close> after the flight log has been obtained.\<close>

definition toBucket :: "number \<Rightarrow> int \<times> nat \<Rightarrow> PeakHourAnalysis" where
  "toBucket maxFlights entry =
     \<lparr> hour = fst entry,
       flightCount = snd entry,
       utilization = math_round (num_mul (num_div (Num (of_nat (snd entry))) maxFlights) (Num 100)) \<rparr>"

definition byFlightCountDesc :: "PeakHourAnalysis \<Rightarrow> PeakHourAnalysis \<Rightarrow> int" where
  "byFlightCountDesc a b = int (flightCount b) - int (flightCount a)"

definition peakHourAnalysisOf :: "ProcessedFlightData list \<Rightarrow> PeakHourAnalysis list" where
  "peakHourAnalysisOf flightData =
     (let hourlyCounts = countHours flightData;
          maxFlights = math_max (map snd hourlyCounts)
      in array_sort byFlightCountDesc (map (toBucket maxFlights) hourlyCounts))"

section \<open>The flight-log source and the cache\<close>

text \<open>The five records of \<open>simulateCSVLoading\<close>.\<close>

definition simulatedFlight1 :: ProcessedFlightData where
  "simulatedFlight1 =
     \<lparr> id_field = ''1'', flightNumber = ''AI101'', origin = ''BOM'', destination = ''IXC'',
       scheduledDeparture = DateOf ''2025-07-25T06:00:00'', scheduledArrival = DateOf ''2025-07-25T08:10:00'',
       actualDeparture = Some (DateOf ''2025-07-25T06:20:00''), actualArrival = Some (DateOf ''2025-07-25T08:14:00''),
       status = DEPARTED, delayMinutes = Some 20, aircraft = Some ''A20N (VT-EXU)'', airportCode = ''BOM'',
       scheduledHour = 6, dayOfWeek = 4, flightDuration = 114 \<rparr>"

definition simulatedFlight2 :: ProcessedFlightData where
  "simulatedFlight2 =
     \<lparr> id_field = ''2'', flightNumber = ''AI102'', origin = ''BOM'', destination = ''HYD'',
       scheduledDeparture = DateOf ''2025-07-25T06:00:00'', scheduledArrival = DateOf ''2025-07-25T07:25:00'',
       actualDeparture = Some (DateOf ''2025-07-25T06:17:00''), actualArrival = Some (DateOf ''2025-07-25T07:26:00''),
       status = DEPARTED, delayMinutes = Some 17, aircraft = Some ''A20N (VT-TQW)'', airportCode = ''BOM'',
       scheduledHour = 6, dayOfWeek = 4, flightDuration = 69 \<rparr>"

definition simulatedFlight3 :: ProcessedFlightData where
  "simulatedFlight3 =
     \<lparr> id_field = ''3'', flightNumber = ''AI103'', origin = ''BOM'', destination = ''DEL'',
       scheduledDeparture = DateOf ''2025-07-25T06:00:00'', scheduledArrival = DateOf ''2025-07-25T07:55:00'',
       actualDeparture = Some (DateOf ''2025-07-25T06:08:00''), actualArrival = Some (DateOf ''2025-07-25T07:49:00''),
       status = DEPARTED, delayMinutes = Some 8, aircraft = Some ''A21N (VT-NCB)'', airportCode = ''BOM'',
       scheduledHour = 6, dayOfWeek = 4, flightDuration = 102 \<rparr>"

definition simulatedFlight4 :: ProcessedFlightData where
  "simulatedFlight4 =
     \<lparr> id_field = ''4'', flightNumber = ''AI104'', origin = ''BOM'', destination = ''BLR'',
       scheduledDeparture = DateOf ''2025-07-25T06:05:00'', scheduledArrival = DateOf ''2025-07-25T07:55:00'',
       actualDeparture = Some (DateOf ''2025-07-25T06:05:00''), actualArrival = Some (DateOf ''2025-07-25T07:22:00''),
       status = ARRIVED, delayMinutes = Some 0, aircraft = Some ''A21N (VT-IWU)'', airportCode = ''BOM'',
       scheduledHour = 6, dayOfWeek = 4, flightDuration = 77 \<rparr>"

definition simulatedFlight5 :: ProcessedFlightData where
  "simulatedFlight5 =
     \<lparr> id_field = ''5'', flightNumber = ''AI105'', origin = ''BOM'', destination = ''CMB'',
       scheduledDeparture = DateOf ''2025-07-25T06:10:00'', scheduledArrival = DateOf ''2025-07-25T08:45:00'',
       actualDeparture = Some (DateOf ''2025-07-25T06:54:00''), actualArrival = Some (DateOf ''2025-07-25T09:00:00''),
       status = DELAYED, delayMinutes = Some 44, aircraft = Some ''A20N (VT-IJZ)'', airportCode = ''BOM'',
       scheduledHour = 6, dayOfWeek = 4, flightDuration = 127 \<rparr>"

definition simulatedData :: "ProcessedFlightData list" where
  "simulatedData = [simulatedFlight1, simulatedFlight2, simulatedFlight3, simulatedFlight4, simulatedFlight5]"

text \<open>
  The flight-log source is the method \<open>simulateCSVLoading\<close> that \<open>loadFlightDataFromCSV\<close>
  awaits inside its \<open>try\<close> block. The operations below take it as the parameter
  \<open>loader\<close>: a loader is given the file path and the state \<open>'w\<close> of whatever it reads
  from, and either resolves with a flight log (\<open>Inr\<close>) or rejects with an error (\<open>Inl\<close>),
  leaving the source in a new state. Every call of the loader threads \<open>'w\<close>, so the
  number of fetches an operation makes can be read off the final \<open>'w\<close>. The
  repository's own loader is \<open>simulateCSVLoading\<close>: it ignores the path, reads nothing
  and always resolves with \<open>simulatedData\<close>.
\<close>

type_synonym ('e, 'w) loader = "string \<Rightarrow> 'w \<Rightarrow> ('e + ProcessedFlightData list) \<times> 'w"

definition simulateCSVLoading :: "('e, 'w) loader" where
  "simulateCSVLoading filePath w = (Inr simulatedData, w)"

definition defaultFilePath :: string where
  "defaultFilePath = ''./flight_data_cleaned.csv''"

text \<open>
  \<open>loadFlightDataFromCSV\<close>: on success the log is stored under the fixed key \<open>'BOM'\<close>
  together with the time \<open>t\<close> that \<open>new Date()\<close> reads; the \<open>catch\<close> block logs the error
  and throws it again, before any write to the cache.
\<close>

definition loadFlightDataFromCSV ::
  "('e, 'w) loader \<Rightarrow> string \<Rightarrow> int \<Rightarrow> FlightDataProcessor \<Rightarrow> 'w
     \<Rightarrow> ('e + ProcessedFlightData list) \<times> FlightDataProcessor \<times> 'w" where
  "loadFlightDataFromCSV loader filePath t s w =
     (case loader filePath w of
        (Inr flightData, w') \<Rightarrow>
          (Inr flightData,
           s\<lparr> dataCache := (dataCache s)(''BOM'' \<mapsto> flightData),
              lastUpdated := (lastUpdated s)(''BOM'' \<mapsto> t) \<rparr>,
           w')
      | (Inl err, w') \<Rightarrow> (Inl err, s, w'))"

text \<open>
  \<open>getFlightData\<close>: \<open>now\<close> is what \<open>Date.now()\<close> returns at the freshness test and
  \<open>tLoad\<close> what \<open>new Date()\<close> returns when a fresh log is stored. An array and a
  \<open>Date\<close> are always truthy, so the test is that both entries exist and the age is below
  five minutes.
\<close>

definition getFlightData ::
  "('e, 'w) loader \<Rightarrow> string \<Rightarrow> int \<Rightarrow> int \<Rightarrow> FlightDataProcessor \<Rightarrow> 'w
     \<Rightarrow> ('e + ProcessedFlightData list) \<times> FlightDataProcessor \<times> 'w" where
  "getFlightData loader code now tLoad s w =
     (case (dataCache s code, lastUpdated s code) of
        (Some cachedData, Some lastUpdate) \<Rightarrow>
          if now - lastUpdate < 5 * 60 * 1000 then (Inr cachedData, s, w)
          else loadFlightDataFromCSV loader defaultFilePath tLoad s w
      | other \<Rightarrow> loadFlightDataFromCSV loader defaultFilePath tLoad s w)"

definition getAirportStatistics ::
  "('e, 'w) loader \<Rightarrow> string \<Rightarrow> int \<Rightarrow> int \<Rightarrow> FlightDataProcessor \<Rightarrow> 'w
     \<Rightarrow> ('e + AirportStatistics) \<times> FlightDataProcessor \<times> 'w" where
  "getAirportStatistics loader code now tLoad s w =
     (case getFlightData loader code now tLoad s w of
        (Inr flightData, s', w') \<Rightarrow> (Inr (airportStatisticsOf flightData), s', w')
      | (Inl err, s', w') \<Rightarrow> (Inl err, s', w'))"

definition getPeakHourAnalysis ::
  "('e, 'w) loader \<Rightarrow> string \<Rightarrow> int \<Rightarrow> int \<Rightarrow> FlightDataProcessor \<Rightarrow> 'w
     \<Rightarrow> ('e + PeakHourAnalysis list) \<times> FlightDataProcessor \<times> 'w" where
  "getPeakHourAnalysis loader code now tLoad s w =
     (case getFlightData loader code now tLoad s w of
        (Inr flightData, s', w') \<Rightarrow> (Inr (peakHourAnalysisOf flightData), s', w')
      | (Inl err, s', w') \<Rightarrow> (Inl err, s', w'))"

section \<open>Real-time updates\<close>

text \<open>
  \<open>Math.random()\<close> is modelled by the sequence \<open>rnd\<close> of the values it returns during one
  call of \<open>getRealTimeUpdates\<close>, each a double in \<open>[0, 1)\<close>; the map over the log draws
  one value per record, and a second one for a record whose first value is below \<open>0.1\<close>.
  The product \<open>Math.random() * 30\<close> is rounded to a double before \<open>Math.floor\<close>.
\<close>

definition unitInterval :: "(nat \<Rightarrow> rat) \<Rightarrow> bool" where
  "unitInterval rnd = (\<forall>i. 0 \<le> rnd i \<and> rnd i < 1 \<and> fl64 (rnd i) = rnd i)"

definition randomDelay :: "rat \<Rightarrow> int" where
  "randomDelay r = \<lfloor>fl64 (r * 30)\<rfloor> - 15"

definition perturb :: "int \<Rightarrow> ProcessedFlightData \<Rightarrow> ProcessedFlightData" where
  "perturb rd flight =
     flight\<lparr> delayMinutes := Some (max 0 (orZero (delayMinutes flight) + rd)),
             status := (if rd > 0 then DELAYED else status flight) \<rparr>"

fun updateFlights :: "(nat \<Rightarrow> rat) \<Rightarrow> nat \<Rightarrow> ProcessedFlightData list \<Rightarrow> ProcessedFlightData list" where
  "updateFlights rnd i [] = []"
| "updateFlights rnd i (flight # rest) =
     (if rnd i < 1 / 10
      then perturb (randomDelay (rnd (i + 1))) flight # updateFlights rnd (i + 2) rest
      else flight # updateFlights rnd (i + 1) rest)"

text \<open>\<open>tWrite\<close> is the time that \<open>new Date()\<close> reads when the updated log is written back.\<close>

definition getRealTimeUpdates ::
  "('e, 'w) loader \<Rightarrow> (nat \<Rightarrow> rat) \<Rightarrow> string \<Rightarrow> int \<Rightarrow> int \<Rightarrow> int \<Rightarrow> FlightDataProcessor \<Rightarrow> 'w
     \<Rightarrow> ('e + ProcessedFlightData list) \<times> FlightDataProcessor \<times> 'w" where
  "getRealTimeUpdates loader rnd code now tLoad tWrite s w =
     (case getFlightData loader code now tLoad s w of
        (Inr flightData, s', w') \<Rightarrow>
          (let updatedData = updateFlights rnd 0 flightData
           in (Inr updatedData,
               s'\<lparr> dataCache := (dataCache s')(code \<mapsto> updatedData),
                   lastUpdated := (lastUpdated s')(code \<mapsto> tWrite) \<rparr>,
               w'))
      | (Inl err, s', w') \<Rightarrow> (Inl err, s', w'))"

text \<open>The processor as \<open>getInstance\<close> first creates it: both maps empty.\<close>

definition newProcessor :: FlightDataProcessor where
  "newProcessor = \<lparr> dataCache = Map.empty, lastUpdated = Map.empty \<rparr>"

section \<open>Notions used to state the properties\<close>

text \<open>The freshness test of \<open>getFlightData\<close>, as a predicate on the processor.\<close>

definition isFresh :: "FlightDataProcessor \<Rightarrow> string \<Rightarrow> int \<Rightarrow> bool" where
  "isFresh s code now =
     (case (dataCache s code, lastUpdated s code) of
        (Some cachedData, Some lastUpdate) \<Rightarrow> now - lastUpdate < 5 * 60 * 1000
      | other \<Rightarrow> False)"

text \<open>
  The decisions the map of \<open>getRealTimeUpdates\<close> takes, record by record, from the same
  random values: \<open>None\<close> when the record is not selected, \<open>Some rd\<close> when it is selected
  and perturbed by \<open>rd\<close>.
\<close>

fun selection :: "(nat \<Rightarrow> rat) \<Rightarrow> nat \<Rightarrow> 'a list \<Rightarrow> int option list" where
  "selection rnd i [] = []"
| "selection rnd i (flight # rest) =
     (if rnd i < 1 / 10
      then Some (randomDelay (rnd (i + 1))) # selection rnd (i + 2) rest
      else None # selection rnd (i + 1) rest)"

text \<open>The hours of a log in the order of their first occurrence.\<close>

fun firstOccurrences :: "'a list \<Rightarrow> 'a list" where
  "firstOccurrences [] = []"
| "firstOccurrences (x # xs) = x # filter (\<lambda>y. y \<noteq> x) (firstOccurrences xs)"

section \<open>Concrete scenarios\<close>

text \<open>
  What a caller can be given as the reason of a failure: the error kind
  \<open>SourceUnavailable\<close>, which the specification names and no code of the repository
  constructs, or a value that the source threw.
\<close>

datatype failure = SourceUnavailable | Thrown string

text \<open>
  Loaders over a source whose state counts the fetches: one that resolves with the
  simulated log, one that resolves with an empty log, and one that rejects with an
  error of its own.
\<close>

definition countingLoader :: "(failure, nat) loader" where
  "countingLoader filePath n = (Inr simulatedData, Suc n)"

definition quietLoader :: "(failure, nat) loader" where
  "quietLoader filePath n = (Inr [], Suc n)"

definition failingLoader :: "(failure, nat) loader" where
  "failingLoader filePath n = (Inl (Thrown ''ENOENT''), Suc n)"

text \<open>
  A log for the key \<open>'DEL'\<close> with an absent, a negative and a critical delay and three
  hours, two of which tie for the greatest count; and a processor that holds it since
  time \<open>1000\<close>.
\<close>

definition sampleLog :: "ProcessedFlightData list" where
  "sampleLog =
     [simulatedFlight1\<lparr> delayMinutes := None, scheduledHour := 9 \<rparr>,
      simulatedFlight2\<lparr> delayMinutes := Some (- 20), scheduledHour := 7 \<rparr>,
      simulatedFlight3\<lparr> delayMinutes := Some 75, scheduledHour := 9 \<rparr>,
      simulatedFlight4\<lparr> delayMinutes := Some 59, scheduledHour := 7 \<rparr>,
      simulatedFlight5\<lparr> delayMinutes := Some 14, scheduledHour := 23 \<rparr>]"

definition sampleProcessor :: FlightDataProcessor where
  "sampleProcessor = \<lparr> dataCache = [''DEL'' \<mapsto> sampleLog], lastUpdated = [''DEL'' \<mapsto> 1000] \<rparr>"

text \<open>The processor after the simulated log has been stored at time \<open>t\<close>.\<close>

definition loadedProcessor :: "int \<Rightarrow> FlightDataProcessor" where
  "loadedProcessor t = \<lparr> dataCache = [''BOM'' \<mapsto> simulatedData], lastUpdated = [''BOM'' \<mapsto> t] \<rparr>"

text \<open>
  A log with 40 flights at hour 6 followed by 23 flights at hour 7, and a processor that
  holds it for the key \<open>'BOM'\<close> since time \<open>1000\<close>.
\<close>

definition tieLog :: "ProcessedFlightData list" where
  "tieLog = replicate 40 simulatedFlight1 @ replicate 23 (simulatedFlight2\<lparr> scheduledHour := 7 \<rparr>)"

definition tieProcessor :: FlightDataProcessor where
  "tieProcessor = \<lparr> dataCache = [''BOM'' \<mapsto> tieLog], lastUpdated = [''BOM'' \<mapsto> 1000] \<rparr>"

text \<open>
  Random sequences of doubles: one that selects the first record (draws \<open>1/16\<close>, then
  \<open>31/32\<close> for the delay) and the third (draws \<open>1/64\<close>, then \<open>11/32\<close>) and no other, and
  one that selects no record.
\<close>

definition sampleRandom :: "nat \<Rightarrow> rat" where
  "sampleRandom i = (if i = 0 then 1 / 16 else if i = 1 then 31 / 32 else if i = 3 then 1 / 64 else if i = 4 then 11 / 32 else 1 / 2)"

definition neverRandom :: "nat \<Rightarrow> rat" where
  "neverRandom i = 1 / 2"

section \<open>Doubles: rounding is monotone\<close>

lemma pow2_less_cancel: "(2 :: rat) powi m < 2 powi n \<Longrightarrow> m < n"
proof (rule ccontr)
  assume a: "(2 :: rat) powi m < 2 powi n" and "\<not> m < n"
  then have "n \<le> m" by simp
  then have "(2 :: rat) powi n \<le> 2 powi m" by (intro power_int_increasing) simp_all
  with a show False by simp
qed

lemma bitlen_powi:
  assumes "0 < a"
  shows "2 powi (bitlen a - 1) \<le> (of_int a :: rat)" and "(of_int a :: rat) < 2 powi (bitlen a)"
proof -
  from bitlen_bounds [OF assms] have l: "2 ^ nat (bitlen a - 1) \<le> a" and u: "a < 2 ^ nat (bitlen a)"
    by simp_all
  from assms have b: "1 \<le> bitlen a" by (auto simp: bitlen_alt_def)
  from l have "(of_int (2 ^ nat (bitlen a - 1)) :: rat) \<le> of_int a" by (simp only: of_int_le_iff)
  then show "2 powi (bitlen a - 1) \<le> (of_int a :: rat)"
    using b by (simp add: power_int_def)
  from u have "(of_int a :: rat) < of_int (2 ^ nat (bitlen a))" by (simp only: of_int_less_iff)
  then show "(of_int a :: rat) < 2 powi (bitlen a)"
    using b by (simp add: power_int_def)
qed

lemma expo_bounds:
  assumes "0 < x"
  shows "2 powi (expo x) \<le> x" and "x < 2 powi (expo x + 1)"
proof -
  obtain a b where q: "quotient_of x = (a, b)" by (cases "quotient_of x")
  then have b: "0 < b" by (rule quotient_of_denom_pos)
  from q have x: "x = of_int a / of_int b" by (rule quotient_of_div)
  with assms b have a: "0 < a" by (simp add: zero_less_divide_iff)
  let ?k = "bitlen a - bitlen b"
  have e: "expo x = (if 2 powi ?k \<le> x then ?k else ?k - 1)"
    by (simp add: expo_def q Let_def)
  note A = bitlen_powi [OF a] and B = bitlen_powi [OF b]
  have bpos: "(0 :: rat) < of_int b" using b by simp
  have up: "x < 2 powi (?k + 1)"
  proof -
    have "x * of_int b = of_int a" using bpos by (simp add: x)
    also have "\<dots> < 2 powi (bitlen a)" by (rule A(2))
    also have "\<dots> = (2 :: rat) powi (?k + 1) * 2 powi (bitlen b - 1)"
      by (simp flip: power_int_add)
    also have "\<dots> \<le> 2 powi (?k + 1) * of_int b"
      using B(1) by (intro mult_left_mono) simp_all
    finally show ?thesis using bpos by simp
  qed
  have lo: "2 powi (?k - 1) < x"
  proof -
    have "(2 :: rat) powi (?k - 1) * of_int b < 2 powi (?k - 1) * 2 powi (bitlen b)"
      using B(2) by (intro mult_strict_left_mono) simp_all
    also have "\<dots> = 2 powi (bitlen a - 1)"
      by (simp flip: power_int_add)
    also have "\<dots> \<le> of_int a" by (rule A(1))
    also have "\<dots> = x * of_int b" using bpos by (simp add: x)
    finally show ?thesis using bpos by simp
  qed
  show "2 powi (expo x) \<le> x"
    using lo by (simp add: e)
  show "x < 2 powi (expo x + 1)"
    using up by (auto simp add: e)
qed


lemma expo_mono:
  assumes "0 < x" and "x \<le> y"
  shows "expo x \<le> expo y"
proof -
  from assms have y: "0 < y" by simp
  have "(2 :: rat) powi (expo x) \<le> x" by (rule expo_bounds [OF assms(1)])
  also have "\<dots> \<le> y" by (rule assms(2))
  also have "\<dots> < 2 powi (expo y + 1)" by (rule expo_bounds [OF y])
  finally have "expo x < expo y + 1" by (rule pow2_less_cancel)
  then show ?thesis by simp
qed

text \<open>
  The overflow test of \<open>double\<close> in terms of the exponent, for evaluation.
\<close>

lemma overflow_iff_expo:
  assumes "0 < y"
  shows "(2 ^ 1024 \<le> y) = (1024 \<le> expo y)"
proof
  assume "2 ^ 1024 \<le> y"
  then have "(2 :: rat) powi 1024 \<le> y" by simp
  also have "y < 2 powi (expo y + 1)" by (rule expo_bounds [OF assms])
  finally have "1024 < expo y + 1" by (rule pow2_less_cancel)
  then show "1024 \<le> expo y" by simp
next
  assume "1024 \<le> expo y"
  then have "(2 :: rat) powi 1024 \<le> 2 powi (expo y)" by (intro power_int_increasing) simp_all
  also have "\<dots> \<le> y" by (rule expo_bounds [OF assms])
  finally show "2 ^ 1024 \<le> y" by simp
qed

lemma double_code [code]:
  "double x =
     (let y = fl64 x
      in if y = 0 then Num 0
         else if 1024 \<le> expo \<bar>y\<bar> then (if 0 < y then PosInfinity else NegInfinity)
         else Num y)"
proof (cases "fl64 x = 0")
  case True
  then show ?thesis by (simp add: double_def)
next
  case False
  show ?thesis
  proof (cases "0 < fl64 x")
    case True
    then show ?thesis
      using overflow_iff_expo [OF True] by (simp add: double_def Let_def)
  next
    case neg: False
    with False have n: "0 < - fl64 x" by simp
    have a: "\<bar>fl64 x\<bar> = - fl64 x" using n by simp
    have e: "(fl64 x \<le> - (2 ^ 1024)) = (1024 \<le> expo (- fl64 x))"
      using overflow_iff_expo [OF n] by auto
    have "(0 :: rat) < 2 ^ 1024" by simp
    with neg have p: "\<not> 2 ^ 1024 \<le> fl64 x" by linarith
    show ?thesis
      unfolding double_def Let_def a using False neg by (simp only: e p if_False if_True)
  qed
qed

lemma round_half_even_bounds:
  "\<lfloor>z\<rfloor> \<le> round_half_even z" "round_half_even z \<le> \<lfloor>z\<rfloor> + 1"
  by (simp_all add: round_half_even_def Let_def)

lemma round_half_even_of_int [simp]: "round_half_even (of_int n) = n"
  by (simp add: round_half_even_def Let_def)

lemma round_half_even_mono:
  assumes "z \<le> z'"
  shows "round_half_even z \<le> round_half_even z'"
proof (cases "\<lfloor>z\<rfloor> < \<lfloor>z'\<rfloor>")
  case True
  have "round_half_even z \<le> \<lfloor>z\<rfloor> + 1" by (rule round_half_even_bounds)
  also have "\<dots> \<le> \<lfloor>z'\<rfloor>" using True by simp
  also have "\<dots> \<le> round_half_even z'" by (rule round_half_even_bounds)
  finally show ?thesis .
next
  case False
  moreover have "\<lfloor>z\<rfloor> \<le> \<lfloor>z'\<rfloor>" using assms by (rule floor_mono)
  ultimately have "\<lfloor>z\<rfloor> = \<lfloor>z'\<rfloor>" by simp
  with assms show ?thesis
    by (auto simp: round_half_even_def Let_def)
qed

lemma fl64_eq: "x \<noteq> 0 \<Longrightarrow> fl64 x = of_int (round_half_even (x / 2 powi grid x)) * 2 powi grid x"
  by (simp add: fl64_def)

lemma fl64_nonneg: "0 \<le> x \<Longrightarrow> 0 \<le> fl64 x"
proof (cases "x = 0")
  case True
  then show ?thesis by (simp add: fl64_def)
next
  case False
  assume "0 \<le> x"
  then have "0 \<le> x / 2 powi grid x" by simp
  then have "round_half_even 0 \<le> round_half_even (x / 2 powi grid x)"
    by (rule round_half_even_mono)
  then have "0 \<le> round_half_even (x / 2 powi grid x)"
    using round_half_even_of_int [of 0] by simp
  then show ?thesis by (simp add: fl64_eq [OF False])
qed

lemma fl64_mono_pos:
  assumes "0 < x" and "x \<le> y"
  shows "fl64 x \<le> fl64 y"
proof -
  from assms have y: "0 < y" by simp
  from assms y have nz: "x \<noteq> 0" "y \<noteq> 0" by simp_all
  have ax: "\<bar>x\<bar> = x" and ay: "\<bar>y\<bar> = y" using assms y by simp_all
  have le: "grid x \<le> grid y"
    using expo_mono [OF assms] by (simp add: grid_def ax ay)
  show ?thesis
  proof (cases "grid x = grid y")
    case True
    have "x / 2 powi grid y \<le> y / 2 powi grid y"
      using assms(2) by (simp add: divide_right_mono)
    then have "round_half_even (x / 2 powi grid y) \<le> round_half_even (y / 2 powi grid y)"
      by (rule round_half_even_mono)
    then have "(of_int (round_half_even (x / 2 powi grid y)) :: rat)
             \<le> of_int (round_half_even (y / 2 powi grid y))"
      by simp
    then show ?thesis
      unfolding fl64_eq [OF nz(1)] fl64_eq [OF nz(2)] True
      by (intro mult_right_mono) simp_all
  next
    case False
    with le have lt: "grid x < grid y" by simp
    then have gy: "grid y = expo y - 52" and ex: "expo x - 52 \<le> grid x"
      by (auto simp: grid_def ax ay)
    let ?B = "(2 :: rat) powi (expo y)"
    have yb: "?B \<le> y" by (rule expo_bounds [OF y])
    have xb: "x \<le> ?B"
    proof -
      from lt gy ex have "expo x + 1 \<le> expo y" by simp
      then have "(2 :: rat) powi (expo x + 1) \<le> ?B" by (intro power_int_increasing) simp_all
      with expo_bounds(2) [OF assms(1)] show ?thesis by simp
    qed
    have up: "fl64 x \<le> ?B"
    proof -
      from lt gy have d: "0 \<le> expo y - grid x" by simp
      have "x / 2 powi grid x \<le> ?B / 2 powi grid x"
        using xb by (simp add: divide_right_mono)
      also have "\<dots> = 2 powi (expo y - grid x)"
        by (simp add: power_int_diff)
      also have "\<dots> = of_int (2 ^ nat (expo y - grid x))"
        using d by (simp add: power_int_def)
      finally have "round_half_even (x / 2 powi grid x)
                    \<le> round_half_even (of_int (2 ^ nat (expo y - grid x)))"
        by (rule round_half_even_mono)
      then have "(of_int (round_half_even (x / 2 powi grid x)) :: rat)
                 \<le> of_int (2 ^ nat (expo y - grid x))"
        by (simp only: round_half_even_of_int of_int_le_iff)
      also have "\<dots> = 2 powi (expo y - grid x)"
        using d by (simp add: power_int_def)
      finally have "of_int (round_half_even (x / 2 powi grid x)) * 2 powi grid x
                    \<le> 2 powi (expo y - grid x) * (2 :: rat) powi grid x"
        by (intro mult_right_mono) simp_all
      also have "\<dots> = ?B" by (simp flip: power_int_add)
      finally show ?thesis by (simp add: fl64_eq [OF nz(1)])
    qed
    have lo: "?B \<le> fl64 y"
    proof -
      have "?B / 2 powi grid y \<le> y / 2 powi grid y"
        using yb by (simp add: divide_right_mono)
      moreover have "?B / 2 powi grid y = of_int (2 ^ 52)"
        by (simp add: gy power_int_diff)
      ultimately have "round_half_even (of_int (2 ^ 52)) \<le> round_half_even (y / 2 powi grid y)"
        by (simp only: round_half_even_mono)
      then have h: "(of_int (2 ^ 52) :: rat) \<le> of_int (round_half_even (y / 2 powi grid y))"
        by (simp only: round_half_even_of_int of_int_le_iff)
      have "?B = of_int (2 ^ 52) * (2 :: rat) powi grid y"
        by (simp add: gy power_int_diff)
      also have "\<dots> \<le> of_int (round_half_even (y / 2 powi grid y)) * 2 powi grid y"
        using h by (intro mult_right_mono) simp_all
      finally show ?thesis by (simp only: fl64_eq [OF nz(2)])
    qed
    from up lo show ?thesis by simp
  qed
qed

lemma fl64_mono: "0 \<le> x \<Longrightarrow> x \<le> y \<Longrightarrow> fl64 x \<le> fl64 y"
proof (cases "x = 0")
  case True
  assume "0 \<le> x" "x \<le> y"
  then have "0 \<le> y" by simp
  then show ?thesis using True fl64_nonneg [of y] by (simp add: fl64_def)
next
  case False
  assume "0 \<le> x" "x \<le> y"
  with False show ?thesis by (intro fl64_mono_pos) simp_all
qed

lemma fl64_values:
  "fl64 0 = 0" "fl64 1 = 1" "fl64 100 = 100" "fl64 24 = 24"
  "fl64 (30 - 30 / 2 ^ 53) < 30"
  by code_simp+

lemma double_small: "0 \<le> x \<Longrightarrow> x \<le> 100 \<Longrightarrow> double x = Num (fl64 x)"
proof -
  assume a: "0 \<le> x" "x \<le> 100"
  from fl64_mono [OF a] have "fl64 x \<le> 100" by (simp add: fl64_values)
  moreover from fl64_nonneg [OF a(1)] have "0 \<le> fl64 x" .
  ultimately show ?thesis by (simp add: double_def Let_def)
qed


lemma utilization_arith:
  assumes "0 < c" "c \<le> m"
  shows "double (of_nat c / of_nat m) = Num (fl64 (of_nat c / of_nat m))"
    and "double (fl64 (of_nat c / of_nat m) * 100) = Num (fl64 (fl64 (of_nat c / of_nat m) * 100))"
    and "0 \<le> \<lfloor>fl64 (fl64 (of_nat c / of_nat m) * 100) + 1 / 2\<rfloor>"
    and "\<lfloor>fl64 (fl64 (of_nat c / of_nat m) * 100) + 1 / 2\<rfloor> \<le> 100"
proof -
  let ?q = "of_nat c / of_nat m :: rat"
  have q0: "0 \<le> ?q" by simp
  have q1: "?q \<le> 1" using assms by simp
  from fl64_mono [OF q0 q1] have f1: "fl64 ?q \<le> 1" by (simp add: fl64_values)
  from fl64_nonneg [OF q0] have f0: "0 \<le> fl64 ?q" .
  show "double ?q = Num (fl64 ?q)" using q0 q1 by (intro double_small) simp_all
  have p0: "0 \<le> fl64 ?q * 100" using f0 by simp
  have p1: "fl64 ?q * 100 \<le> 100" using f1 by simp
  show "double (fl64 ?q * 100) = Num (fl64 (fl64 ?q * 100))" using p0 p1 by (rule double_small)
  from fl64_mono [OF p0 p1] have g1: "fl64 (fl64 ?q * 100) \<le> 100" by (simp add: fl64_values)
  from fl64_nonneg [OF p0] have g0: "0 \<le> fl64 (fl64 ?q * 100)" .
  from g0 have "0 \<le> fl64 (fl64 ?q * 100) + 1 / 2" by simp
  then show "0 \<le> \<lfloor>fl64 (fl64 ?q * 100) + 1 / 2\<rfloor>" by simp
  from g1 have "fl64 (fl64 ?q * 100) + 1 / 2 < 101" by simp
  then have "\<lfloor>fl64 (fl64 ?q * 100) + 1 / 2\<rfloor> < 101" by (simp add: floor_less_iff)
  then show "\<lfloor>fl64 (fl64 ?q * 100) + 1 / 2\<rfloor> \<le> 100" by simp
qed

lemma dyadic_doubles:
  "fl64 (1 / 2) = 1 / 2" "fl64 (1 / 16) = 1 / 16" "fl64 (31 / 32) = 31 / 32"
  "fl64 (1 / 64) = 1 / 64" "fl64 (11 / 32) = 11 / 32"
  by code_simp+

lemma double_0 [simp]: "double 0 = Num 0"
  by (simp add: double_def fl64_values)

text \<open>
  The arithmetic at work: the product \<open>(23 / 40) * 100\<close> is the double
  57.49999999999999, so an average of 0.575 is rounded to 0.57; above \<open>2^53\<close> an
  addition loses the unit; a sum that rounds to \<open>2^1024\<close> or more is \<open>Infinity\<close>; and the
  random draw 0.5333333333333333 gives the delay +1, since its product with 30 is rounded
  to 16.
\<close>

lemma num_add_overflow:
  "2 ^ 1024 \<le> fl64 (a + b) \<Longrightarrow> num_add (Num a) (Num b) = PosInfinity"
  by (simp add: double_def)

lemma double_arithmetic_examples:
  "num_mul (num_div (Num 23) (Num 40)) (Num 100) = Num (8092405580431359 / 140737488355328)"
  "round2 (num_div (Num 23) (Num 40)) = Num (fl64 (57 / 100))"
  "num_add (Num (2 ^ 53)) (Num 1) = Num (2 ^ 53)"
  "randomDelay (4803839602528529 / 2 ^ 53) = 1"
  by code_simp+

section \<open>The cache: helper lemmas\<close>

lemma getFlightData_fresh:
  "isFresh s code now \<Longrightarrow>
   getFlightData loader code now tLoad s w = (Inr (the (dataCache s code)), s, w)"
  by (auto simp: isFresh_def getFlightData_def split: option.splits)

lemma getFlightData_stale:
  "\<not> isFresh s code now \<Longrightarrow>
   getFlightData loader code now tLoad s w = loadFlightDataFromCSV loader defaultFilePath tLoad s w"
  by (auto simp: isFresh_def getFlightData_def split: option.splits)

lemma getFlightData_new:
  "getFlightData loader code now tLoad newProcessor w =
   loadFlightDataFromCSV loader defaultFilePath tLoad newProcessor w"
  by (simp add: getFlightData_def newProcessor_def)

lemma getAirportStatistics_Inr:
  "getFlightData loader code now tLoad s w = (Inr flightData, s', w') \<Longrightarrow>
   getAirportStatistics loader code now tLoad s w = (Inr (airportStatisticsOf flightData), s', w')"
  by (simp add: getAirportStatistics_def)

lemma getPeakHourAnalysis_Inr:
  "getFlightData loader code now tLoad s w = (Inr flightData, s', w') \<Longrightarrow>
   getPeakHourAnalysis loader code now tLoad s w = (Inr (peakHourAnalysisOf flightData), s', w')"
  by (simp add: getPeakHourAnalysis_def)

lemma isFresh_sample: "isFresh sampleProcessor ''DEL'' 2000"
  by (simp add: isFresh_def sampleProcessor_def)

lemma getFlightData_sample:
  "getFlightData loader ''DEL'' 2000 tLoad sampleProcessor w = (Inr sampleLog, sampleProcessor, w)"
  using getFlightData_fresh [OF isFresh_sample, of loader tLoad w]
  by (simp add: sampleProcessor_def)

lemma getFlightData_simulated:
  "getFlightData simulateCSVLoading code now tLoad newProcessor w =
   (Inr simulatedData, loadedProcessor tLoad, w)"
  unfolding getFlightData_new
  by (simp add: loadFlightDataFromCSV_def simulateCSVLoading_def loadedProcessor_def
      newProcessor_def)

section \<open>Statistics of the simulated log\<close>

lemma simulated_statistics:
  "airportStatisticsOf simulatedData =
   \<lparr> totalFlights = 5, delayedFlights = 4, avgDelay = Num (fl64 (178 / 10)), peakHour = 6,
     peakFlights = 5, delayDistribution = \<lparr> minor = 2, major = 3, critical = 0 \<rparr>,
     capacityUtilization = Num (fl64 (417 / 100)) \<rparr>"
  by code_simp

lemma decimal_doubles:
  "\<bar>fl64 (178 / 10) - 178 / 10\<bar> < 1 / 2 ^ 50" "\<bar>fl64 (417 / 100) - 417 / 100\<bar> < 1 / 2 ^ 50"
  by code_simp+

text \<open>
  C5. For the five-flight log of the simulated loader (delays 20, 17, 8, 0, 44, all at
  hour 6) the statistics are totalFlights 5, delayedFlights 4, avgDelay 17.8, peakHour 6,
  peakFlights 5, distribution minor 2, major 3, critical 0, and capacityUtilization 4.17,
  where 17.8 and 4.17 are the doubles that these decimals denote; this is what
  \<open>getAirportStatistics\<close> returns for any airport code on a new processor.
\<close>

theorem simulated_log_statistics:
  "airportStatisticsOf simulatedData =
     \<lparr> totalFlights = 5, delayedFlights = 4, avgDelay = Num (fl64 (178 / 10)), peakHour = 6,
       peakFlights = 5, delayDistribution = \<lparr> minor = 2, major = 3, critical = 0 \<rparr>,
       capacityUtilization = Num (fl64 (417 / 100)) \<rparr>
   \<and> fst (getAirportStatistics simulateCSVLoading code now tLoad newProcessor w) =
     Inr \<lparr> totalFlights = 5, delayedFlights = 4, avgDelay = Num (fl64 (178 / 10)), peakHour = 6,
       peakFlights = 5, delayDistribution = \<lparr> minor = 2, major = 3, critical = 0 \<rparr>,
       capacityUtilization = Num (fl64 (417 / 100)) \<rparr>
   \<and> \<bar>fl64 (178 / 10) - 178 / 10\<bar> < 1 / 2 ^ 50
   \<and> \<bar>fl64 (417 / 100) - 417 / 100\<bar> < 1 / 2 ^ 50"
proof -
  have g: "getAirportStatistics simulateCSVLoading code now tLoad newProcessor w =
        (Inr (airportStatisticsOf simulatedData), loadedProcessor tLoad, w)"
    by (rule getAirportStatistics_Inr) (rule getFlightData_simulated)
  show ?thesis
    unfolding g fst_conv simulated_statistics using decimal_doubles by blast
qed

section \<open>The hourly buckets\<close>

lemma set_firstOccurrences [simp]: "set (firstOccurrences xs) = set xs"
  by (induction xs) auto

lemma distinct_firstOccurrences [simp]: "distinct (firstOccurrences xs)"
  by (induction xs) auto

lemma firstOccurrences_snoc:
  "firstOccurrences (xs @ [x]) = (if x \<in> set xs then firstOccurrences xs else firstOccurrences xs @ [x])"
  by (induction xs) auto

lemma takeWhile_filter_neq:
  "a \<noteq> x \<Longrightarrow> takeWhile (\<lambda>y. y \<noteq> a) (filter (\<lambda>y. y \<noteq> x) ys) = filter (\<lambda>y. y \<noteq> x) (takeWhile (\<lambda>y. y \<noteq> a) ys)"
  by (induction ys) auto

lemma set_takeWhile_firstOccurrences:
  "set (takeWhile (\<lambda>y. y \<noteq> a) (firstOccurrences xs)) = set (takeWhile (\<lambda>y. y \<noteq> a) xs)"
proof (induction xs)
  case Nil
  then show ?case by simp
next
  case (Cons x xs)
  show ?case
  proof (cases "x = a")
    case True
    then show ?thesis by simp
  next
    case False
    then have "a \<noteq> x" by simp
    from takeWhile_filter_neq [OF this] Cons False show ?thesis by auto
  qed
qed

lemma map_of_keyed:
  "map_of (map (\<lambda>h. (h, c h)) ks) x = (if x \<in> set ks then Some (c x) else None)"
  by (induction ks) auto

lemma map_set_keyed:
  "distinct ks \<Longrightarrow>
   map_set x v (map (\<lambda>h. (h, c h)) ks) =
     (if x \<in> set ks then map (\<lambda>h. (h, if h = x then v else c h)) ks
      else map (\<lambda>h. (h, c h)) ks @ [(x, v)])"
  by (induction ks) auto

lemma countHours_snoc: "countHours (fd @ [f]) = countStep (countHours fd) f"
  by (simp add: countHours_def)

lemma countHours_eq:
  "countHours fd =
   map (\<lambda>h. (h, count_list (map scheduledHour fd) h)) (firstOccurrences (map scheduledHour fd))"
proof (induction fd rule: rev_induct)
  case Nil
  then show ?case by (simp add: countHours_def)
next
  case (snoc f fd)
  let ?hs = "map scheduledHour fd"
  let ?x = "scheduledHour f"
  have step: "countHours (fd @ [f]) =
      map_set ?x ((case map_of (countHours fd) ?x of None \<Rightarrow> 0 | Some c \<Rightarrow> c) + 1) (countHours fd)"
    by (simp add: countHours_snoc countStep_def)
  show ?case
  proof (cases "?x \<in> set ?hs")
    case True
    then show ?thesis
      unfolding step snoc.IH
      by (simp add: map_of_keyed map_set_keyed firstOccurrences_snoc)
  next
    case False
    then show ?thesis
      unfolding step snoc.IH
      by (auto simp add: map_of_keyed map_set_keyed firstOccurrences_snoc)
  qed
qed

lemma foldl_peakStep:
  "(foldl peakStep acc L = acc \<or> (foldl peakStep acc L \<in> set L \<and> snd acc < snd (foldl peakStep acc L)))
   \<and> (\<forall>e\<in>set L. snd e \<le> snd (foldl peakStep acc L))
   \<and> snd acc \<le> snd (foldl peakStep acc L)
   \<and> (snd acc < snd (foldl peakStep acc L) \<longrightarrow>
        (\<forall>e\<in>set (takeWhile (\<lambda>e. e \<noteq> foldl peakStep acc L) L). snd e < snd (foldl peakStep acc L)))"
proof (induction L arbitrary: acc)
  case Nil
  then show ?case by simp
next
  case (Cons e L)
  let ?r = "foldl peakStep (peakStep acc e) L"
  note IH = Cons.IH [of "peakStep acc e"]
  show ?case
  proof (cases "snd acc < snd e")
    case True
    then have p: "peakStep acc e = e" by (simp add: peakStep_def)
    from IH show ?thesis unfolding foldl_Cons p using True by auto
  next
    case False
    then have p: "peakStep acc e = acc" by (simp add: peakStep_def)
    from IH show ?thesis unfolding foldl_Cons p using False by auto
  qed
qed

lemma count_list_pos: "x \<in> set xs \<Longrightarrow> 0 < count_list xs x"
  by (induction xs) auto

lemma findPeak_countHours:
  assumes "fd \<noteq> []"
  defines "hs \<equiv> map scheduledHour fd"
  defines "p \<equiv> findPeak (countHours fd)"
  shows "fst p \<in> set hs"
    and "snd p = count_list hs (fst p)"
    and "count_list hs h \<le> snd p"
    and "h \<in> set (takeWhile (\<lambda>h. h \<noteq> fst p) hs) \<Longrightarrow> count_list hs h < snd p"
proof -
  let ?g = "\<lambda>h. (h, count_list hs h)"
  let ?K = "firstOccurrences hs"
  let ?L = "map ?g ?K"
  have L: "countHours fd = ?L" unfolding hs_def by (rule countHours_eq)
  have p: "p = foldl peakStep (0, 0) ?L" by (simp add: p_def findPeak_def L)
  note F = foldl_peakStep [of "(0, 0)" ?L, folded p]
  from assms(1) obtain h0 where h0: "h0 \<in> set hs" by (cases fd) (auto simp: hs_def)
  then have "?g h0 \<in> set ?L" by simp
  with F have "snd (?g h0) \<le> snd p" by blast
  with count_list_pos [OF h0] have pos: "0 < snd p" by simp
  with F have mem: "p \<in> set ?L" by auto
  then show 1: "fst p \<in> set hs" by auto
  from mem show 2: "snd p = count_list hs (fst p)" by auto
  show "count_list hs h \<le> snd p"
  proof (cases "h \<in> set hs")
    case True
    then have "?g h \<in> set ?L" by simp
    with F have "snd (?g h) \<le> snd p" by blast
    then show ?thesis by simp
  next
    case False
    then have "count_list hs h = 0" by (simp add: count_list_0_iff)
    then show ?thesis by simp
  qed
  assume "h \<in> set (takeWhile (\<lambda>h. h \<noteq> fst p) hs)"
  then have "h \<in> set (takeWhile (\<lambda>h. h \<noteq> fst p) ?K)"
    by (simp add: set_takeWhile_firstOccurrences)
  moreover have "takeWhile (\<lambda>e. e \<noteq> p) ?L = map ?g (takeWhile (\<lambda>h. h \<noteq> fst p) ?K)"
  proof -
    have "(\<lambda>e. e \<noteq> p) \<circ> ?g = (\<lambda>h. h \<noteq> fst p)"
      using 2 by (auto simp: fun_eq_iff prod_eq_iff)
    then show ?thesis by (simp add: takeWhile_map)
  qed
  ultimately have "?g h \<in> set (takeWhile (\<lambda>e. e \<noteq> p) ?L)" by simp
  with F pos have "snd (?g h) < snd p" by auto
  then show "count_list hs h < snd p" by simp
qed

lemma findPeak_Nil: "findPeak (countHours []) = (0, 0)"
  by (simp add: findPeak_def countHours_def)

section \<open>Airport statistics\<close>

lemma minor_pred: "(absDelay f < 15) = (case delayMinutes f of None \<Rightarrow> True | Some d \<Rightarrow> \<bar>d\<bar> < 15)"
  by (simp add: absDelay_def orZero_def split: option.splits)

lemma major_pred: "(absDelay f \<ge> 15 \<and> absDelay f < 60) = (case delayMinutes f of None \<Rightarrow> False | Some d \<Rightarrow> 15 \<le> \<bar>d\<bar> \<and> \<bar>d\<bar> \<le> 59)"
  by (auto simp add: absDelay_def orZero_def split: option.splits)

lemma critical_pred: "(absDelay f \<ge> 60) = (case delayMinutes f of None \<Rightarrow> False | Some d \<Rightarrow> 60 \<le> \<bar>d\<bar>)"
  by (simp add: absDelay_def orZero_def split: option.splits)

lemma buckets_partition:
  "length (filter (\<lambda>f. absDelay f < 15) fd) + length (filter (\<lambda>f. absDelay f \<ge> 15 \<and> absDelay f < 60) fd)
   + length (filter (\<lambda>f. absDelay f \<ge> 60) fd) = length fd"
  by (induction fd) auto

lemma statistics_fields:
  "totalFlights (airportStatisticsOf fd) = length fd"
  "minor (delayDistribution (airportStatisticsOf fd)) = length (filter (\<lambda>f. absDelay f < 15) fd)"
  "major (delayDistribution (airportStatisticsOf fd)) = length (filter (\<lambda>f. absDelay f \<ge> 15 \<and> absDelay f < 60) fd)"
  "critical (delayDistribution (airportStatisticsOf fd)) = length (filter (\<lambda>f. absDelay f \<ge> 60) fd)"
  "peakHour (airportStatisticsOf fd) = fst (findPeak (countHours fd))"
  "peakFlights (airportStatisticsOf fd) = snd (findPeak (countHours fd))"
  by (simp_all add: airportStatisticsOf_def Let_def)

lemma statistics_empty:
  "airportStatisticsOf [] =
   \<lparr> totalFlights = 0, delayedFlights = 0, avgDelay = NaN, peakHour = 0, peakFlights = 0,
     delayDistribution = \<lparr> minor = 0, major = 0, critical = 0 \<rparr>, capacityUtilization = NaN \<rparr>"
  by (simp add: airportStatisticsOf_def Let_def round2_def countHours_def findPeak_def)

lemma peakFlights_pos: "fd \<noteq> [] \<Longrightarrow> 0 < peakFlights (airportStatisticsOf fd)"
  using findPeak_countHours(1,2) [of fd] by (simp add: statistics_fields count_list_pos)

text \<open>
  C4. The delay distribution of \<open>getAirportStatistics\<close> counts a record as minor when
  its delay is absent or of magnitude below 15, as major when the magnitude is 15 to 59,
  and as critical when it is 60 or more; the three counts add up to \<open>totalFlights\<close>.
\<close>

theorem delay_distribution_buckets:
  assumes "getFlightData loader code now tLoad s w = (Inr flightData, s', w')"
  shows "\<exists>st. getAirportStatistics loader code now tLoad s w = (Inr st, s', w')
     \<and> totalFlights st = length flightData
     \<and> minor (delayDistribution st) =
         length (filter (\<lambda>f. case delayMinutes f of None \<Rightarrow> True | Some d \<Rightarrow> \<bar>d\<bar> < 15) flightData)
     \<and> major (delayDistribution st) =
         length (filter (\<lambda>f. case delayMinutes f of None \<Rightarrow> False | Some d \<Rightarrow> 15 \<le> \<bar>d\<bar> \<and> \<bar>d\<bar> \<le> 59) flightData)
     \<and> critical (delayDistribution st) =
         length (filter (\<lambda>f. case delayMinutes f of None \<Rightarrow> False | Some d \<Rightarrow> 60 \<le> \<bar>d\<bar>) flightData)
     \<and> minor (delayDistribution st) + major (delayDistribution st) + critical (delayDistribution st)
         = totalFlights st"
proof -
  let ?st = "airportStatisticsOf flightData"
  have "getAirportStatistics loader code now tLoad s w = (Inr ?st, s', w')"
    using assms by (rule getAirportStatistics_Inr)
  moreover have "totalFlights ?st = length flightData"
    by (simp add: statistics_fields)
  moreover have "minor (delayDistribution ?st) =
         length (filter (\<lambda>f. case delayMinutes f of None \<Rightarrow> True | Some d \<Rightarrow> \<bar>d\<bar> < 15) flightData)"
    by (simp add: statistics_fields minor_pred)
  moreover have "major (delayDistribution ?st) =
         length (filter (\<lambda>f. case delayMinutes f of None \<Rightarrow> False | Some d \<Rightarrow> 15 \<le> \<bar>d\<bar> \<and> \<bar>d\<bar> \<le> 59) flightData)"
    by (simp add: statistics_fields major_pred)
  moreover have "critical (delayDistribution ?st) =
         length (filter (\<lambda>f. case delayMinutes f of None \<Rightarrow> False | Some d \<Rightarrow> 60 \<le> \<bar>d\<bar>) flightData)"
    by (simp add: statistics_fields critical_pred)
  moreover have "minor (delayDistribution ?st) + major (delayDistribution ?st) + critical (delayDistribution ?st)
         = totalFlights ?st"
    by (simp add: statistics_fields buckets_partition)
  ultimately show ?thesis by blast
qed

theorem delay_distribution_buckets_witness:
  "getFlightData quietLoader ''DEL'' 2000 2000 sampleProcessor 0 = (Inr sampleLog, sampleProcessor, 0)
   \<and> (\<exists>st. getAirportStatistics quietLoader ''DEL'' 2000 2000 sampleProcessor 0 = (Inr st, sampleProcessor, 0)
     \<and> totalFlights st = 5
     \<and> minor (delayDistribution st) = 2
     \<and> major (delayDistribution st) = 2
     \<and> critical (delayDistribution st) = 1)"
proof -
  have h: "getFlightData quietLoader ''DEL'' 2000 2000 sampleProcessor 0 = (Inr sampleLog, sampleProcessor, 0)"
    by (rule getFlightData_sample)
  have l: "length sampleLog = 5" by (simp add: sampleLog_def)
  have a: "length (filter (\<lambda>f. case delayMinutes f of None \<Rightarrow> True | Some d \<Rightarrow> \<bar>d\<bar> < 15) sampleLog) = 2"
    by (simp add: sampleLog_def)
  have b: "length (filter (\<lambda>f. case delayMinutes f of None \<Rightarrow> False | Some d \<Rightarrow> 15 \<le> \<bar>d\<bar> \<and> \<bar>d\<bar> \<le> 59) sampleLog) = 2"
    by (simp add: sampleLog_def)
  have c: "length (filter (\<lambda>f. case delayMinutes f of None \<Rightarrow> False | Some d \<Rightarrow> 60 \<le> \<bar>d\<bar>) sampleLog) = 1"
    by (simp add: sampleLog_def)
  from delay_distribution_buckets [OF h] show ?thesis
    unfolding l a b c using h by blast
qed

text \<open>
  C2, as the code has it. An empty log raises no error, but \<open>avgDelay\<close> and
  \<open>capacityUtilization\<close> are both \<open>NaN\<close> (the unguarded quotients \<open>0 / 0\<close>), not 0:
  here for a source that resolves with an empty log.
\<close>

theorem nan_for_empty_log:
  "getAirportStatistics quietLoader ''BOM'' 0 0 newProcessor 0 =
     (Inr \<lparr> totalFlights = 0, delayedFlights = 0, avgDelay = NaN, peakHour = 0, peakFlights = 0,
            delayDistribution = \<lparr> minor = 0, major = 0, critical = 0 \<rparr>,
            capacityUtilization = NaN \<rparr>,
      \<lparr> dataCache = [''BOM'' \<mapsto> []], lastUpdated = [''BOM'' \<mapsto> 0] \<rparr>, 1)
   \<and> NaN \<noteq> Num 0"
proof -
  have "getFlightData quietLoader ''BOM'' 0 0 newProcessor 0 =
        (Inr [], \<lparr> dataCache = [''BOM'' \<mapsto> []], lastUpdated = [''BOM'' \<mapsto> 0] \<rparr>, 1)"
    unfolding getFlightData_new
    by (simp add: loadFlightDataFromCSV_def quietLoader_def newProcessor_def)
  from getAirportStatistics_Inr [OF this] show ?thesis
    by (simp only: statistics_empty number.distinct simp_thms)
qed

text \<open>
  C2, amended. For an empty log \<open>getAirportStatistics\<close> returns without an error, with
  \<open>totalFlights = 0\<close> and with \<open>avgDelay\<close> and \<open>capacityUtilization\<close> both \<open>NaN\<close>;
  \<open>peakFlights\<close> is 0 exactly when the log is empty.
\<close>

theorem empty_log_statistics:
  assumes "getFlightData loader code now tLoad s w = (Inr flightData, s', w')"
  shows "\<exists>st. getAirportStatistics loader code now tLoad s w = (Inr st, s', w')
     \<and> (peakFlights st = 0 \<longleftrightarrow> flightData = [])
     \<and> (flightData = [] \<longrightarrow>
          totalFlights st = 0 \<and> avgDelay st = NaN \<and> capacityUtilization st = NaN)"
proof -
  let ?st = "airportStatisticsOf flightData"
  have g: "getAirportStatistics loader code now tLoad s w = (Inr ?st, s', w')"
    using assms by (rule getAirportStatistics_Inr)
  have e: "flightData = [] \<longrightarrow>
      peakFlights ?st = 0 \<and> totalFlights ?st = 0 \<and> avgDelay ?st = NaN \<and> capacityUtilization ?st = NaN"
    by (auto simp: statistics_empty)
  have n: "flightData \<noteq> [] \<longrightarrow> peakFlights ?st \<noteq> 0"
    using peakFlights_pos [of flightData] by auto
  show ?thesis
    using g e n by (intro exI [of _ ?st]) auto
qed

theorem empty_log_statistics_witness:
  "getFlightData quietLoader ''BOM'' 0 0 newProcessor 0 =
     (Inr [], \<lparr> dataCache = [''BOM'' \<mapsto> []], lastUpdated = [''BOM'' \<mapsto> 0] \<rparr>, 1)
   \<and> (\<exists>st. getAirportStatistics quietLoader ''BOM'' 0 0 newProcessor 0 =
          (Inr st, \<lparr> dataCache = [''BOM'' \<mapsto> []], lastUpdated = [''BOM'' \<mapsto> 0] \<rparr>, 1)
        \<and> peakFlights st = 0 \<and> totalFlights st = 0 \<and> avgDelay st = NaN
        \<and> capacityUtilization st = NaN)"
proof -
  have h: "getFlightData quietLoader ''BOM'' 0 0 newProcessor 0 =
        (Inr [], \<lparr> dataCache = [''BOM'' \<mapsto> []], lastUpdated = [''BOM'' \<mapsto> 0] \<rparr>, 1)"
    unfolding getFlightData_new
    by (simp add: loadFlightDataFromCSV_def quietLoader_def newProcessor_def)
  from empty_log_statistics [OF h] h show ?thesis by blast
qed

text \<open>
  C7. For a non-empty log the peak hour is an hour of the log whose count is the greatest
  of all, and every hour that occurs in the log before the first occurrence of the peak
  hour has a strictly smaller count: among the hours that tie for the greatest count the
  one met first wins. For an empty log the peak hour and its count are both 0.
\<close>

theorem peak_hour_first_maximum:
  assumes "getFlightData loader code now tLoad s w = (Inr flightData, s', w')"
  shows "\<exists>st. getAirportStatistics loader code now tLoad s w = (Inr st, s', w')
     \<and> (flightData = [] \<longrightarrow> peakHour st = 0 \<and> peakFlights st = 0)
     \<and> (flightData \<noteq> [] \<longrightarrow>
          peakHour st \<in> set (map scheduledHour flightData)
        \<and> peakFlights st = count_list (map scheduledHour flightData) (peakHour st)
        \<and> (\<forall>h. count_list (map scheduledHour flightData) h \<le> peakFlights st)
        \<and> (\<forall>h \<in> set (takeWhile (\<lambda>h. h \<noteq> peakHour st) (map scheduledHour flightData)).
              count_list (map scheduledHour flightData) h < peakFlights st))"
proof -
  let ?st = "airportStatisticsOf flightData"
  have g: "getAirportStatistics loader code now tLoad s w = (Inr ?st, s', w')"
    using assms by (rule getAirportStatistics_Inr)
  have e: "flightData = [] \<longrightarrow> peakHour ?st = 0 \<and> peakFlights ?st = 0"
    by (auto simp: statistics_fields findPeak_Nil)
  have n: "flightData \<noteq> [] \<longrightarrow>
          peakHour ?st \<in> set (map scheduledHour flightData)
        \<and> peakFlights ?st = count_list (map scheduledHour flightData) (peakHour ?st)
        \<and> (\<forall>h. count_list (map scheduledHour flightData) h \<le> peakFlights ?st)
        \<and> (\<forall>h \<in> set (takeWhile (\<lambda>h. h \<noteq> peakHour ?st) (map scheduledHour flightData)).
              count_list (map scheduledHour flightData) h < peakFlights ?st)"
    unfolding statistics_fields
    using findPeak_countHours [of flightData] by blast
  from g e n show ?thesis by blast
qed

theorem peak_hour_first_maximum_witness:
  "getFlightData quietLoader ''DEL'' 2000 2000 sampleProcessor 0 = (Inr sampleLog, sampleProcessor, 0)
   \<and> sampleLog \<noteq> []
   \<and> map scheduledHour sampleLog = [9, 7, 9, 7, 23 :: int]
   \<and> (\<exists>st. getAirportStatistics quietLoader ''DEL'' 2000 2000 sampleProcessor 0 = (Inr st, sampleProcessor, 0)
        \<and> peakHour st \<in> set [9, 7, 9, 7, 23 :: int]
        \<and> peakFlights st = count_list [9, 7, 9, 7, 23 :: int] (peakHour st)
        \<and> (\<forall>h. count_list [9, 7, 9, 7, 23 :: int] h \<le> peakFlights st)
        \<and> (\<forall>h \<in> set (takeWhile (\<lambda>h. h \<noteq> peakHour st) [9, 7, 9, 7, 23 :: int]).
              count_list [9, 7, 9, 7, 23 :: int] h < peakFlights st))"
proof -
  have h: "getFlightData quietLoader ''DEL'' 2000 2000 sampleProcessor 0 = (Inr sampleLog, sampleProcessor, 0)"
    by (rule getFlightData_sample)
  have n: "sampleLog \<noteq> []" by (simp add: sampleLog_def)
  have m: "map scheduledHour sampleLog = [9, 7, 9, 7, 23 :: int]" by (simp add: sampleLog_def)
  from peak_hour_first_maximum [OF h] n show ?thesis
    unfolding m using h by blast
qed

section \<open>Peak-hour analysis\<close>

lemma set_insert_by [simp]: "set (insert_by cmp x ys) = insert x (set ys)"
  by (induction ys) auto

lemma array_sort_Nil [simp]: "array_sort cmp [] = []"
  by (simp add: array_sort_def)

lemma array_sort_Cons [simp]: "array_sort cmp (x # xs) = insert_by cmp x (array_sort cmp xs)"
  by (simp add: array_sort_def)

lemma set_array_sort [simp]: "set (array_sort cmp xs) = set xs"
  by (induction xs) auto

lemma length_insert_by [simp]: "length (insert_by cmp x ys) = Suc (length ys)"
  by (induction ys) auto

lemma length_array_sort [simp]: "length (array_sort cmp xs) = length xs"
  by (induction xs) auto

lemma distinct_map_insert_by:
  "distinct (map f (insert_by cmp x ys)) = (f x \<notin> f ` set ys \<and> distinct (map f ys))"
  by (induction ys) auto

lemma distinct_map_array_sort:
  "distinct (map f (array_sort cmp xs)) = distinct (map f xs)"
  by (induction xs) (auto simp: distinct_map_insert_by)

lemma sorted_insert_by:
  "sorted_wrt (\<lambda>a b. flightCount b \<le> flightCount a) ys \<Longrightarrow>
   sorted_wrt (\<lambda>a b. flightCount b \<le> flightCount a) (insert_by byFlightCountDesc x ys)"
  by (induction ys) (auto simp: byFlightCountDesc_def)

lemma sorted_array_sort:
  "sorted_wrt (\<lambda>a b. flightCount b \<le> flightCount a) (array_sort byFlightCountDesc xs)"
proof (induction xs)
  case Nil
  then show ?case by simp
next
  case (Cons x xs)
  then show ?case
    using sorted_insert_by [of "array_sort byFlightCountDesc xs" x]
    by simp
qed

lemma filter_insert_by:
  "filter (\<lambda>b. flightCount b = k) (insert_by byFlightCountDesc x ys) =
   (if flightCount x = k then x # filter (\<lambda>b. flightCount b = k) ys
    else filter (\<lambda>b. flightCount b = k) ys)"
  by (induction ys) (auto simp: byFlightCountDesc_def)

lemma filter_array_sort:
  "filter (\<lambda>b. flightCount b = k) (array_sort byFlightCountDesc xs) =
   filter (\<lambda>b. flightCount b = k) xs"
  by (induction xs) (auto simp: filter_insert_by)

lemma math_max_eq: "xs \<noteq> [] \<Longrightarrow> math_max xs = Num (of_nat (Max (set xs)))"
proof (induction xs)
  case Nil
  then show ?case by simp
next
  case (Cons x xs)
  show ?case
  proof (cases "xs = []")
    case True
    then show ?thesis by simp
  next
    case False
    with Cons have "math_max xs = Num (of_nat (Max (set xs)))" by simp
    then show ?thesis using False by (simp add: max_def)
  qed
qed

lemma toBucket_fields [simp]:
  "hour (toBucket m e) = fst e"
  "flightCount (toBucket m e) = snd e"
  "utilization (toBucket m e) = math_round (num_mul (num_div (Num (of_nat (snd e))) m) (Num 100))"
  by (simp_all add: toBucket_def)

lemma map_fst_countHours: "map fst (countHours fd) = firstOccurrences (map scheduledHour fd)"
  by (simp add: countHours_eq comp_def)

lemma set_snd_countHours:
  "set (map snd (countHours fd)) = count_list (map scheduledHour fd) ` set (map scheduledHour fd)"
  by (simp add: countHours_eq comp_def)

lemma countHours_entry:
  "e \<in> set (countHours fd) \<Longrightarrow>
   fst e \<in> set (map scheduledHour fd) \<and> snd e = count_list (map scheduledHour fd) (fst e)"
  by (auto simp: countHours_eq)

lemma peakHourAnalysisOf_eq:
  "peakHourAnalysisOf fd =
   array_sort byFlightCountDesc (map (toBucket (math_max (map snd (countHours fd)))) (countHours fd))"
  by (simp add: peakHourAnalysisOf_def Let_def)

lemma peakHourAnalysis_hours:
  "distinct (map hour (peakHourAnalysisOf fd))"
  "set (map hour (peakHourAnalysisOf fd)) = set (map scheduledHour fd)"
proof -
  have m: "map (hour \<circ> toBucket (math_max (map snd (countHours fd)))) (countHours fd) = map fst (countHours fd)"
    by simp
  show "distinct (map hour (peakHourAnalysisOf fd))"
    unfolding peakHourAnalysisOf_eq distinct_map_array_sort
    by (simp add: m map_fst_countHours)
  have "set (map hour (peakHourAnalysisOf fd)) = set (map fst (countHours fd))"
    unfolding peakHourAnalysisOf_eq by (simp add: image_image)
  then show "set (map hour (peakHourAnalysisOf fd)) = set (map scheduledHour fd)"
    by (simp only: map_fst_countHours set_firstOccurrences)
qed

lemma peakHourAnalysis_stable:
  "map hour (filter (\<lambda>b. flightCount b = k) (peakHourAnalysisOf fd)) =
   map fst (filter (\<lambda>e. snd e = k) (countHours fd))"
  unfolding peakHourAnalysisOf_eq filter_array_sort
  by (simp add: filter_map comp_def)

lemma utilization_eq:
  assumes "0 < c" "c \<le> m"
  shows "math_round (num_mul (num_div (Num (of_nat c)) (Num (of_nat m))) (Num 100)) =
         Num (of_int \<lfloor>fl64 (fl64 (of_nat c / of_nat m) * 100) + 1 / 2\<rfloor>)"
proof -
  from assms have m: "(of_nat m :: rat) \<noteq> 0" by simp
  then have "num_div (Num (of_nat c)) (Num (of_nat m)) = Num (fl64 (of_nat c / of_nat m))"
    using utilization_arith(1) [OF assms] by simp
  then show ?thesis
    using utilization_arith(2) [OF assms] by simp
qed

lemma peakHourAnalysis_bucket:
  assumes "b \<in> set (peakHourAnalysisOf fd)"
  defines "hs \<equiv> map scheduledHour fd"
  shows "flightCount b = count_list hs (hour b)"
    and "utilization b =
         Num (of_int \<lfloor>fl64 (fl64 (of_nat (flightCount b) / of_nat (Max (count_list hs ` set hs))) * 100)
                      + 1 / 2\<rfloor>)"
    and "0 \<le> \<lfloor>fl64 (fl64 (of_nat (flightCount b) / of_nat (Max (count_list hs ` set hs))) * 100)
               + 1 / 2\<rfloor>"
    and "\<lfloor>fl64 (fl64 (of_nat (flightCount b) / of_nat (Max (count_list hs ` set hs))) * 100)
          + 1 / 2\<rfloor> \<le> 100"
proof -
  let ?L = "countHours fd"
  let ?M = "Max (count_list hs ` set hs)"
  from assms(1) obtain e where e: "e \<in> set ?L" and b: "b = toBucket (math_max (map snd ?L)) e"
    unfolding peakHourAnalysisOf_eq by auto
  from countHours_entry [OF e] have h: "fst e \<in> set hs" and c: "snd e = count_list hs (fst e)"
    by (simp_all add: hs_def)
  show "flightCount b = count_list hs (hour b)" using b c by simp
  from e have "?L \<noteq> []" by auto
  then have "map snd ?L \<noteq> []" by simp
  then have mm: "math_max (map snd ?L) = Num (of_nat ?M)"
    using math_max_eq [of "map snd ?L"] set_snd_countHours [of fd] by (simp add: hs_def)
  from h have pos: "0 < snd e" unfolding c by (rule count_list_pos)
  from h have le: "snd e \<le> ?M" unfolding c by (intro Max_ge) auto
  have fc: "flightCount b = snd e" using b by simp
  show "utilization b =
        Num (of_int \<lfloor>fl64 (fl64 (of_nat (flightCount b) / of_nat ?M) * 100) + 1 / 2\<rfloor>)"
    unfolding fc using utilization_eq [OF pos le] b mm by simp
  show "0 \<le> \<lfloor>fl64 (fl64 (of_nat (flightCount b) / of_nat ?M) * 100) + 1 / 2\<rfloor>"
    unfolding fc by (rule utilization_arith(3) [OF pos le])
  show "\<lfloor>fl64 (fl64 (of_nat (flightCount b) / of_nat ?M) * 100) + 1 / 2\<rfloor> \<le> 100"
    unfolding fc by (rule utilization_arith(4) [OF pos le])
qed

lemma peakHourAnalysis_sample:
  "peakHourAnalysisOf sampleLog =
     [\<lparr> hour = 9, flightCount = 2, utilization = Num 100 \<rparr>,
      \<lparr> hour = 7, flightCount = 2, utilization = Num 100 \<rparr>,
      \<lparr> hour = 23, flightCount = 1, utilization = Num 50 \<rparr>]"
  by code_simp

lemma peakHourAnalysis_tie:
  "peakHourAnalysisOf tieLog =
     [\<lparr> hour = 6, flightCount = 40, utilization = Num 100 \<rparr>,
      \<lparr> hour = 7, flightCount = 23, utilization = Num 57 \<rparr>]"
  by code_simp

lemma getFlightData_tie:
  "getFlightData loader ''BOM'' 2000 tLoad tieProcessor w = (Inr tieLog, tieProcessor, w)"
proof -
  have "isFresh tieProcessor ''BOM'' 2000" by (simp add: isFresh_def tieProcessor_def)
  from getFlightData_fresh [OF this, of loader tLoad w] show ?thesis
    by (simp add: tieProcessor_def)
qed

text \<open>
  C6, as the code has it. With 40 flights at hour 6 and 23 at hour 7 the utilization of
  hour 7 is 57: the double product \<open>(23 / 40) * 100\<close> is 57.49999999999999, below the
  tie, while \<open>round(23 / 40 * 100) = round(57.5) = 58\<close> in exact arithmetic.
\<close>

theorem utilization_below_exact_rounding:
  "getPeakHourAnalysis quietLoader ''BOM'' 2000 2000 tieProcessor 0 =
     (Inr [\<lparr> hour = 6, flightCount = 40, utilization = Num 100 \<rparr>,
           \<lparr> hour = 7, flightCount = 23, utilization = Num 57 \<rparr>], tieProcessor, 0)
   \<and> \<lfloor>23 / 40 * 100 + 1 / 2 :: rat\<rfloor> = 58
   \<and> fl64 (fl64 (23 / 40) * 100) < 115 / 2"
proof -
  have "getPeakHourAnalysis quietLoader ''BOM'' 2000 2000 tieProcessor 0 =
        (Inr (peakHourAnalysisOf tieLog), tieProcessor, 0)"
    by (rule getPeakHourAnalysis_Inr) (rule getFlightData_tie)
  moreover have "\<lfloor>23 / 40 * 100 + 1 / 2 :: rat\<rfloor> = 58" by simp
  moreover have "fl64 (fl64 (23 / 40) * 100) < 115 / 2" by code_simp
  ultimately show ?thesis by (simp only: peakHourAnalysis_tie simp_thms)
qed

text \<open>
  C6, amended. The result of \<open>getPeakHourAnalysis\<close> has exactly one bucket for every hour
  that occurs in the log and none for any other hour, each with the number of flights of
  that hour; it is sorted non-increasing by \<open>flightCount\<close>, and the buckets of equal count
  keep the order of the bucketing step, which is the order of first occurrence in the log;
  every utilization is \<open>Math.round\<close> of the double \<open>(flightCount / maxBucketCount) * 100\<close>,
  quotient and product each rounded to the nearest double, with the greatest bucket count
  as \<open>maxBucketCount\<close>, and is an integer between 0 and 100.
\<close>

theorem peak_hour_analysis_sorted:
  assumes "getFlightData loader code now tLoad s w = (Inr flightData, s', w')"
  shows "\<exists>res. getPeakHourAnalysis loader code now tLoad s w = (Inr res, s', w')
     \<and> distinct (map hour res)
     \<and> set (map hour res) = set (map scheduledHour flightData)
     \<and> (\<forall>b \<in> set res. flightCount b = count_list (map scheduledHour flightData) (hour b))
     \<and> sorted_wrt (\<lambda>a b. flightCount b \<le> flightCount a) res
     \<and> (\<forall>k. map hour (filter (\<lambda>b. flightCount b = k) res) =
              map fst (filter (\<lambda>e. snd e = k) (countHours flightData)))
     \<and> map fst (countHours flightData) = firstOccurrences (map scheduledHour flightData)
     \<and> (\<forall>b \<in> set res.
           utilization b =
             Num (of_int \<lfloor>fl64 (fl64 (of_nat (flightCount b)
                    / of_nat (Max (count_list (map scheduledHour flightData)
                                    ` set (map scheduledHour flightData)))) * 100) + 1 / 2\<rfloor>)
         \<and> (\<exists>u. utilization b = Num (of_int u) \<and> 0 \<le> u \<and> u \<le> 100))"
proof -
  let ?res = "peakHourAnalysisOf flightData"
  have g: "getPeakHourAnalysis loader code now tLoad s w = (Inr ?res, s', w')"
    using assms by (rule getPeakHourAnalysis_Inr)
  have u: "\<forall>b \<in> set ?res.
           utilization b =
             Num (of_int \<lfloor>fl64 (fl64 (of_nat (flightCount b)
                    / of_nat (Max (count_list (map scheduledHour flightData)
                                    ` set (map scheduledHour flightData)))) * 100) + 1 / 2\<rfloor>)
         \<and> (\<exists>u. utilization b = Num (of_int u) \<and> 0 \<le> u \<and> u \<le> 100)"
    using peakHourAnalysis_bucket(2,3,4) by blast
  have c: "\<forall>b \<in> set ?res. flightCount b = count_list (map scheduledHour flightData) (hour b)"
    using peakHourAnalysis_bucket(1) by blast
  from g peakHourAnalysis_hours [of flightData] c sorted_array_sort peakHourAnalysis_stable
    map_fst_countHours [of flightData] u
  show ?thesis
    unfolding peakHourAnalysisOf_eq by blast
qed

theorem peak_hour_analysis_sorted_witness:
  "getFlightData quietLoader ''DEL'' 2000 2000 sampleProcessor 0 = (Inr sampleLog, sampleProcessor, 0)
   \<and> map scheduledHour sampleLog = [9, 7, 9, 7, 23 :: int]
   \<and> (\<exists>res. getPeakHourAnalysis quietLoader ''DEL'' 2000 2000 sampleProcessor 0 = (Inr res, sampleProcessor, 0)
     \<and> res = [\<lparr> hour = 9, flightCount = 2, utilization = Num 100 \<rparr>,
              \<lparr> hour = 7, flightCount = 2, utilization = Num 100 \<rparr>,
              \<lparr> hour = 23, flightCount = 1, utilization = Num 50 \<rparr>]
     \<and> distinct (map hour res)
     \<and> set (map hour res) = set [9, 7, 9, 7, 23 :: int]
     \<and> (\<forall>b \<in> set res. flightCount b = count_list [9, 7, 9, 7, 23 :: int] (hour b))
     \<and> sorted_wrt (\<lambda>a b. flightCount b \<le> flightCount a) res
     \<and> (\<forall>k. map hour (filter (\<lambda>b. flightCount b = k) res) =
              map fst (filter (\<lambda>e. snd e = k) (countHours sampleLog)))
     \<and> map fst (countHours sampleLog) = firstOccurrences [9, 7, 9, 7, 23 :: int]
     \<and> (\<forall>b \<in> set res.
           utilization b =
             Num (of_int \<lfloor>fl64 (fl64 (of_nat (flightCount b)
                    / of_nat (Max (count_list [9, 7, 9, 7, 23 :: int]
                                    ` set [9, 7, 9, 7, 23 :: int]))) * 100) + 1 / 2\<rfloor>)
         \<and> (\<exists>u. utilization b = Num (of_int u) \<and> 0 \<le> u \<and> u \<le> 100)))"
proof -
  have h: "getFlightData quietLoader ''DEL'' 2000 2000 sampleProcessor 0 = (Inr sampleLog, sampleProcessor, 0)"
    by (rule getFlightData_sample)
  have m: "map scheduledHour sampleLog = [9, 7, 9, 7, 23 :: int]" by (simp add: sampleLog_def)
  have e: "getPeakHourAnalysis quietLoader ''DEL'' 2000 2000 sampleProcessor 0 =
           (Inr [\<lparr> hour = 9, flightCount = 2, utilization = Num 100 \<rparr>,
                 \<lparr> hour = 7, flightCount = 2, utilization = Num 100 \<rparr>,
                 \<lparr> hour = 23, flightCount = 1, utilization = Num 50 \<rparr>], sampleProcessor, 0)"
    using getPeakHourAnalysis_Inr [OF h] by (simp only: peakHourAnalysis_sample)
  from peak_hour_analysis_sorted [OF h] show ?thesis
    unfolding m e using h by blast
qed

section \<open>The cache\<close>

lemma loadFlightDataFromCSV_Inr:
  "loader filePath w = (Inr flightData, w') \<Longrightarrow>
   loadFlightDataFromCSV loader filePath t s w =
     (Inr flightData,
      s\<lparr> dataCache := (dataCache s)(''BOM'' \<mapsto> flightData),
         lastUpdated := (lastUpdated s)(''BOM'' \<mapsto> t) \<rparr>, w')"
  by (simp add: loadFlightDataFromCSV_def)

lemma loadFlightDataFromCSV_Inl:
  "loader filePath w = (Inl err, w') \<Longrightarrow>
   loadFlightDataFromCSV loader filePath t s w = (Inl err, s, w')"
  by (simp add: loadFlightDataFromCSV_def)


lemma getFlightData_refresh:
  "\<not> isFresh s code now \<Longrightarrow> loader defaultFilePath w = (Inr flightData, w') \<Longrightarrow>
   getFlightData loader code now tLoad s w =
     (Inr flightData,
      s\<lparr> dataCache := (dataCache s)(''BOM'' \<mapsto> flightData),
         lastUpdated := (lastUpdated s)(''BOM'' \<mapsto> tLoad) \<rparr>, w')"
  by (simp add: getFlightData_stale loadFlightDataFromCSV_Inr)

lemma getFlightData_BOM_cached:
  assumes "\<not> isFresh s ''BOM'' now" and "loader defaultFilePath w = (Inr flightData, w')"
    and "getFlightData loader ''BOM'' now tLoad s w = (r, s1, w1)"
    and "now2 - tLoad < 5 * 60 * 1000"
  shows "r = Inr flightData \<and> getFlightData loader2 ''BOM'' now2 tLoad2 s1 w1 = (Inr flightData, s1, w1)"
proof -
  from getFlightData_refresh [where loader = loader and w = w and tLoad = tLoad, OF assms(1,2)] assms(3)
  have r: "r = Inr flightData" and w: "w1 = w'"
    and s1: "s1 = s\<lparr> dataCache := (dataCache s)(''BOM'' \<mapsto> flightData),
         lastUpdated := (lastUpdated s)(''BOM'' \<mapsto> tLoad) \<rparr>"
    by simp_all
  from assms(4) have "isFresh s1 ''BOM'' now2" by (simp add: isFresh_def s1)
  from getFlightData_fresh [OF this, of loader2 tLoad2 w1] r show ?thesis by (simp add: s1)
qed

lemma getFlightData_other_entries:
  assumes "code \<noteq> ''BOM''"
    and "getFlightData loader code now tLoad s w = (r, s', w')"
  shows "dataCache s' code = dataCache s code \<and> lastUpdated s' code = lastUpdated s code"
proof (cases "isFresh s code now")
  case True
  from getFlightData_fresh [OF True, of loader tLoad w] assms(2) show ?thesis by simp
next
  case False
  from getFlightData_stale [OF False, of loader tLoad w] assms
  show ?thesis
    by (auto simp: loadFlightDataFromCSV_def split: prod.splits sum.splits)
qed

text \<open>
  C1, at the airport code \<open>'DEL'\<close>. On a new processor the first call fetches the log
  and stores it under \<open>'BOM'\<close>, so no entry exists for \<open>'DEL'\<close> afterwards; a second
  call for \<open>'DEL'\<close> one second later fetches again (the source has then been read twice)
  and rewrites the entry of \<open>'BOM'\<close>.
\<close>

theorem getFlightData_other_code_refetches:
  "getFlightData countingLoader ''DEL'' 0 0 newProcessor 0 = (Inr simulatedData, loadedProcessor 0, 1)
   \<and> dataCache (loadedProcessor 0) ''DEL'' = None
   \<and> dataCache (loadedProcessor 0) ''BOM'' = Some simulatedData
   \<and> getFlightData countingLoader ''DEL'' 1000 1000 (loadedProcessor 0) 1 =
       (Inr simulatedData, loadedProcessor 1000, 2)"
proof -
  have a: "getFlightData countingLoader ''DEL'' 0 0 newProcessor 0 =
           (Inr simulatedData, loadedProcessor 0, 1)"
    unfolding getFlightData_new
    by (simp add: loadFlightDataFromCSV_def countingLoader_def loadedProcessor_def newProcessor_def)
  have n: "\<not> isFresh (loadedProcessor 0) ''DEL'' 1000"
    by (simp add: isFresh_def loadedProcessor_def)
  have b: "getFlightData countingLoader ''DEL'' 1000 1000 (loadedProcessor 0) 1 =
       (Inr simulatedData, loadedProcessor 1000, 2)"
    unfolding getFlightData_stale [OF n]
    by (simp add: loadFlightDataFromCSV_def countingLoader_def loadedProcessor_def)
  have c: "dataCache (loadedProcessor 0) ''DEL'' = None"
    "dataCache (loadedProcessor 0) ''BOM'' = Some simulatedData"
    by (simp_all add: loadedProcessor_def)
  from a b c show ?thesis by simp
qed

text \<open>
  C8, as the code has it. The source rejects with an error of its own, and that error is
  what the caller is given: the \<open>catch\<close> block throws the caught value again and the
  error kind \<open>SourceUnavailable\<close> is never produced.
\<close>

theorem source_error_rethrown_as_is:
  "getFlightData failingLoader ''DEL'' 301000 301000 sampleProcessor 0 =
     (Inl (Thrown ''ENOENT''), sampleProcessor, 1)
   \<and> Thrown ''ENOENT'' \<noteq> SourceUnavailable"
proof -
  have "\<not> isFresh sampleProcessor ''DEL'' 301000"
    by (simp add: isFresh_def sampleProcessor_def)
  then show ?thesis
    by (simp add: getFlightData_stale loadFlightDataFromCSV_def failingLoader_def)
qed

text \<open>
  C8, amended. When the source rejects during a refresh, \<open>loadFlightDataFromCSV\<close> and
  \<open>getFlightData\<close> fail with the very error the source rejected with, the processor (both
  maps, so the previous entry and its timestamp) is unchanged, and the source has been
  called once.
\<close>

theorem source_failure_surfaced:
  assumes "loader defaultFilePath w = (Inl err, w')"
      and "\<not> isFresh s code now"
  shows "loadFlightDataFromCSV loader defaultFilePath tLoad s w = (Inl err, s, w')
       \<and> getFlightData loader code now tLoad s w = (Inl err, s, w')"
  using assms by (simp add: getFlightData_stale loadFlightDataFromCSV_Inl)

theorem source_failure_surfaced_witness:
  "failingLoader defaultFilePath 0 = (Inl (Thrown ''ENOENT''), 1)
   \<and> \<not> isFresh sampleProcessor ''DEL'' 301000
   \<and> loadFlightDataFromCSV failingLoader defaultFilePath 301000 sampleProcessor 0 =
        (Inl (Thrown ''ENOENT''), sampleProcessor, 1)
   \<and> getFlightData failingLoader ''DEL'' 301000 301000 sampleProcessor 0 =
        (Inl (Thrown ''ENOENT''), sampleProcessor, 1)"
proof -
  have a: "failingLoader defaultFilePath 0 = (Inl (Thrown ''ENOENT''), 1)"
    by (simp add: failingLoader_def)
  have b: "\<not> isFresh sampleProcessor ''DEL'' 301000"
    by (simp add: isFresh_def sampleProcessor_def)
  from source_failure_surfaced [of failingLoader 0 "Thrown ''ENOENT''" 1 sampleProcessor "''DEL''" 301000 301000, OF a b] a b
  show ?thesis by simp
qed

section \<open>Real-time updates: properties\<close>

lemma length_updateFlights [simp]: "length (updateFlights rnd i fs) = length fs"
  by (induction fs arbitrary: i) auto

lemma length_selection [simp]: "length (selection rnd i fs) = length fs"
  by (induction fs arbitrary: i) auto

lemma updateFlights_nth:
  "k < length fs \<Longrightarrow>
   updateFlights rnd i fs ! k =
     (case selection rnd i fs ! k of None \<Rightarrow> fs ! k | Some rd \<Rightarrow> perturb rd (fs ! k))"
proof (induction fs arbitrary: i k)
  case Nil
  then show ?case by simp
next
  case (Cons f fs)
  show ?case
  proof (cases k)
    case 0
    then show ?thesis by simp
  next
    case (Suc j)
    with Cons.prems have j: "j < length fs" by simp
    show ?thesis
      unfolding Suc using Cons.IH [OF j] by (simp split: option.splits)
  qed
qed



lemma perturb_fields [simp]:
  "delayMinutes (perturb rd f) = Some (max 0 (orZero (delayMinutes f) + rd))"
  "status (perturb rd f) = (if 0 < rd then DELAYED else status f)"
  "(perturb rd f)\<lparr> delayMinutes := delayMinutes f, status := status f \<rparr> = f"
  by (simp_all add: perturb_def)

lemma getRealTimeUpdates_Inr:
  "getFlightData loader code now tLoad s w = (Inr flightData, s1, w') \<Longrightarrow>
   getRealTimeUpdates loader rnd code now tLoad tWrite s w =
     (Inr (updateFlights rnd 0 flightData),
      s1\<lparr> dataCache := (dataCache s1)(code \<mapsto> updateFlights rnd 0 flightData),
          lastUpdated := (lastUpdated s1)(code \<mapsto> tWrite) \<rparr>,
      w')"
  by (simp add: getRealTimeUpdates_def Let_def)

lemma updateFlights_never [simp]: "updateFlights neverRandom i fs = fs"
  by (induction fs arbitrary: i) (simp_all add: neverRandom_def)


lemma unitInterval_never: "unitInterval neverRandom"
  by (simp add: unitInterval_def neverRandom_def dyadic_doubles)

lemma selection_sample:
  "selection sampleRandom 0 sampleLog = [Some 14, None, Some (- 5), None, None]"
  by code_simp



text \<open>
  C9, as the code has it. A record that is not selected keeps its delay, also a negative
  one: here no record is selected and the second record of the log keeps its delay of
  -20 minutes.
\<close>

theorem realtime_unselected_negative_delay:
  "fst (getRealTimeUpdates quietLoader neverRandom ''DEL'' 2000 2000 3000 sampleProcessor 0) = Inr sampleLog
   \<and> delayMinutes (sampleLog ! 1) = Some (- 20)
   \<and> unitInterval neverRandom"
proof -
  have "delayMinutes (sampleLog ! 1) = Some (- 20)" by (simp add: sampleLog_def)
  then show ?thesis
    by (simp add: getRealTimeUpdates_Inr [OF getFlightData_sample] unitInterval_never)
qed

text \<open>
  C9, amended. Every selected record of the returned log has a delay that is present and
  not negative, and every other record keeps the delay it had; so the returned log has no
  negative delay when the log it was computed from has none.
\<close>

theorem realtime_delay_nonnegative:
  assumes "getFlightData loader code now tLoad s w = (Inr flightData, s1, w')"
  shows "\<exists>upd s'. getRealTimeUpdates loader rnd code now tLoad tWrite s w = (Inr upd, s', w')
     \<and> length upd = length flightData
     \<and> (\<forall>k < length flightData.
           (selection rnd 0 flightData ! k = None \<longrightarrow>
              delayMinutes (upd ! k) = delayMinutes (flightData ! k))
         \<and> (selection rnd 0 flightData ! k \<noteq> None \<longrightarrow>
              (\<exists>d. delayMinutes (upd ! k) = Some d \<and> 0 \<le> d)))
     \<and> ((\<forall>f \<in> set flightData. \<forall>d. delayMinutes f = Some d \<longrightarrow> 0 \<le> d) \<longrightarrow>
          (\<forall>f \<in> set upd. \<forall>d. delayMinutes f = Some d \<longrightarrow> 0 \<le> d))"
proof -
  let ?upd = "updateFlights rnd 0 flightData"
  let ?s = "s1\<lparr> dataCache := (dataCache s1)(code \<mapsto> ?upd),
               lastUpdated := (lastUpdated s1)(code \<mapsto> tWrite) \<rparr>"
  have g: "getRealTimeUpdates loader rnd code now tLoad tWrite s w = (Inr ?upd, ?s, w')"
    using assms by (rule getRealTimeUpdates_Inr)
  have p: "\<forall>k < length flightData.
           (selection rnd 0 flightData ! k = None \<longrightarrow>
              delayMinutes (?upd ! k) = delayMinutes (flightData ! k))
         \<and> (selection rnd 0 flightData ! k \<noteq> None \<longrightarrow>
              (\<exists>d. delayMinutes (?upd ! k) = Some d \<and> 0 \<le> d))"
    by (auto simp: updateFlights_nth)
  have q: "(\<forall>f \<in> set flightData. \<forall>d. delayMinutes f = Some d \<longrightarrow> 0 \<le> d) \<longrightarrow>
          (\<forall>f \<in> set ?upd. \<forall>d. delayMinutes f = Some d \<longrightarrow> 0 \<le> d)"
  proof (intro impI ballI allI)
    fix f d
    assume a: "\<forall>f \<in> set flightData. \<forall>d. delayMinutes f = Some d \<longrightarrow> 0 \<le> d"
      and f: "f \<in> set ?upd" and d: "delayMinutes f = Some d"
    from f obtain k where k: "k < length flightData" and fk: "f = ?upd ! k"
      by (auto simp: in_set_conv_nth)
    show "0 \<le> d"
    proof (cases "selection rnd 0 flightData ! k")
      case None
      with p k fk d have "delayMinutes (flightData ! k) = Some d" by simp
      with a k show ?thesis by (meson nth_mem)
    next
      case (Some rd)
      with p k fk d show ?thesis by auto
    qed
  qed
  from g p q show ?thesis
    by (intro exI [of _ ?upd] exI [of _ ?s]) simp
qed

lemma simulated_delays_nonnegative:
  "\<forall>f \<in> set simulatedData. \<forall>d. delayMinutes f = Some d \<longrightarrow> 0 \<le> d"
  by (simp add: simulatedData_def simulatedFlight1_def simulatedFlight2_def simulatedFlight3_def
      simulatedFlight4_def simulatedFlight5_def)

theorem realtime_delay_nonnegative_witness:
  "getFlightData quietLoader ''DEL'' 2000 2000 sampleProcessor 0 = (Inr sampleLog, sampleProcessor, 0)
   \<and> selection sampleRandom 0 sampleLog = [Some 14, None, Some (- 5), None, None]
   \<and> (\<exists>upd s'. getRealTimeUpdates quietLoader sampleRandom ''DEL'' 2000 2000 3000 sampleProcessor 0
                  = (Inr upd, s', 0)
     \<and> length upd = length sampleLog
     \<and> (\<forall>k < length sampleLog.
           (selection sampleRandom 0 sampleLog ! k = None \<longrightarrow>
              delayMinutes (upd ! k) = delayMinutes (sampleLog ! k))
         \<and> (selection sampleRandom 0 sampleLog ! k \<noteq> None \<longrightarrow>
              (\<exists>d. delayMinutes (upd ! k) = Some d \<and> 0 \<le> d))))
   \<and> getFlightData countingLoader ''BOM'' 0 0 newProcessor 0 = (Inr simulatedData, loadedProcessor 0, 1)
   \<and> list_all (\<lambda>f. case delayMinutes f of None \<Rightarrow> True | Some d \<Rightarrow> 0 \<le> d) simulatedData
   \<and> (\<exists>upd s'. getRealTimeUpdates countingLoader sampleRandom ''BOM'' 0 0 3000 newProcessor 0
                  = (Inr upd, s', 1)
     \<and> list_all (\<lambda>f. case delayMinutes f of None \<Rightarrow> True | Some d \<Rightarrow> 0 \<le> d) upd)"
proof -
  have h: "getFlightData quietLoader ''DEL'' 2000 2000 sampleProcessor 0 = (Inr sampleLog, sampleProcessor, 0)"
    by (rule getFlightData_sample)
  have g: "getFlightData countingLoader ''BOM'' 0 0 newProcessor 0 = (Inr simulatedData, loadedProcessor 0, 1)"
    unfolding getFlightData_new
    by (simp add: loadFlightDataFromCSV_def countingLoader_def loadedProcessor_def newProcessor_def)
  have l: "list_all (\<lambda>f. case delayMinutes f of None \<Rightarrow> True | Some d \<Rightarrow> 0 \<le> d) xs
           = (\<forall>f \<in> set xs. \<forall>d. delayMinutes f = Some d \<longrightarrow> 0 \<le> d)" for xs
    by (auto simp: list_all_iff split: option.splits)
  from realtime_delay_nonnegative [OF h, of sampleRandom 3000]
  have a: "\<exists>upd s'. getRealTimeUpdates quietLoader sampleRandom ''DEL'' 2000 2000 3000 sampleProcessor 0
                  = (Inr upd, s', 0)
     \<and> length upd = length sampleLog
     \<and> (\<forall>k < length sampleLog.
           (selection sampleRandom 0 sampleLog ! k = None \<longrightarrow>
              delayMinutes (upd ! k) = delayMinutes (sampleLog ! k))
         \<and> (selection sampleRandom 0 sampleLog ! k \<noteq> None \<longrightarrow>
              (\<exists>d. delayMinutes (upd ! k) = Some d \<and> 0 \<le> d)))"
    by blast
  from realtime_delay_nonnegative [OF g, of sampleRandom 3000] simulated_delays_nonnegative
  have b: "\<exists>upd s'. getRealTimeUpdates countingLoader sampleRandom ''BOM'' 0 0 3000 newProcessor 0
                  = (Inr upd, s', 1)
     \<and> list_all (\<lambda>f. case delayMinutes f of None \<Rightarrow> True | Some d \<Rightarrow> 0 \<le> d) upd"
    unfolding l by blast
  from h g a b selection_sample simulated_delays_nonnegative show ?thesis
    unfolding l by blast
qed

text \<open>
  C10. The returned log has the length and the order of the log it was computed from; a
  record that is not selected is returned as it is, and every record agrees with its
  original in all fields but \<open>delayMinutes\<close> and \<open>status\<close>.
\<close>

theorem realtime_frame:
  assumes "getFlightData loader code now tLoad s w = (Inr flightData, s1, w')"
  shows "\<exists>upd s'. getRealTimeUpdates loader rnd code now tLoad tWrite s w = (Inr upd, s', w')
     \<and> length upd = length flightData
     \<and> (\<forall>k < length flightData.
           (selection rnd 0 flightData ! k = None \<longrightarrow> upd ! k = flightData ! k)
         \<and> (upd ! k)\<lparr> delayMinutes := delayMinutes (flightData ! k),
                       status := status (flightData ! k) \<rparr> = flightData ! k
         \<and> id_field (upd ! k) = id_field (flightData ! k)
         \<and> flightNumber (upd ! k) = flightNumber (flightData ! k)
         \<and> origin (upd ! k) = origin (flightData ! k)
         \<and> destination (upd ! k) = destination (flightData ! k)
         \<and> scheduledDeparture (upd ! k) = scheduledDeparture (flightData ! k)
         \<and> scheduledArrival (upd ! k) = scheduledArrival (flightData ! k)
         \<and> actualDeparture (upd ! k) = actualDeparture (flightData ! k)
         \<and> actualArrival (upd ! k) = actualArrival (flightData ! k)
         \<and> aircraft (upd ! k) = aircraft (flightData ! k)
         \<and> airportCode (upd ! k) = airportCode (flightData ! k)
         \<and> scheduledHour (upd ! k) = scheduledHour (flightData ! k)
         \<and> dayOfWeek (upd ! k) = dayOfWeek (flightData ! k)
         \<and> flightDuration (upd ! k) = flightDuration (flightData ! k))"
proof -
  let ?upd = "updateFlights rnd 0 flightData"
  let ?s = "s1\<lparr> dataCache := (dataCache s1)(code \<mapsto> ?upd),
               lastUpdated := (lastUpdated s1)(code \<mapsto> tWrite) \<rparr>"
  have g: "getRealTimeUpdates loader rnd code now tLoad tWrite s w = (Inr ?upd, ?s, w')"
    using assms by (rule getRealTimeUpdates_Inr)
  have p: "\<forall>k < length flightData.
           (selection rnd 0 flightData ! k = None \<longrightarrow> ?upd ! k = flightData ! k)
         \<and> (?upd ! k)\<lparr> delayMinutes := delayMinutes (flightData ! k),
                       status := status (flightData ! k) \<rparr> = flightData ! k
         \<and> id_field (?upd ! k) = id_field (flightData ! k)
         \<and> flightNumber (?upd ! k) = flightNumber (flightData ! k)
         \<and> origin (?upd ! k) = origin (flightData ! k)
         \<and> destination (?upd ! k) = destination (flightData ! k)
         \<and> scheduledDeparture (?upd ! k) = scheduledDeparture (flightData ! k)
         \<and> scheduledArrival (?upd ! k) = scheduledArrival (flightData ! k)
         \<and> actualDeparture (?upd ! k) = actualDeparture (flightData ! k)
         \<and> actualArrival (?upd ! k) = actualArrival (flightData ! k)
         \<and> aircraft (?upd ! k) = aircraft (flightData ! k)
         \<and> airportCode (?upd ! k) = airportCode (flightData ! k)
         \<and> scheduledHour (?upd ! k) = scheduledHour (flightData ! k)
         \<and> dayOfWeek (?upd ! k) = dayOfWeek (flightData ! k)
         \<and> flightDuration (?upd ! k) = flightDuration (flightData ! k)"
    by (auto simp: updateFlights_nth perturb_def split: option.splits)
  from g p show ?thesis
    by (intro exI [of _ ?upd] exI [of _ ?s]) simp
qed

theorem realtime_frame_witness:
  "getFlightData quietLoader ''DEL'' 2000 2000 sampleProcessor 0 = (Inr sampleLog, sampleProcessor, 0)
   \<and> selection sampleRandom 0 sampleLog = [Some 14, None, Some (- 5), None, None]
   \<and> (\<exists>upd s'. getRealTimeUpdates quietLoader sampleRandom ''DEL'' 2000 2000 3000 sampleProcessor 0
                  = (Inr upd, s', 0)
     \<and> length upd = length sampleLog
     \<and> (\<forall>k < length sampleLog.
           (selection sampleRandom 0 sampleLog ! k = None \<longrightarrow> upd ! k = sampleLog ! k)
         \<and> (upd ! k)\<lparr> delayMinutes := delayMinutes (sampleLog ! k),
                       status := status (sampleLog ! k) \<rparr> = sampleLog ! k
         \<and> id_field (upd ! k) = id_field (sampleLog ! k)
         \<and> flightNumber (upd ! k) = flightNumber (sampleLog ! k)
         \<and> origin (upd ! k) = origin (sampleLog ! k)
         \<and> destination (upd ! k) = destination (sampleLog ! k)
         \<and> scheduledDeparture (upd ! k) = scheduledDeparture (sampleLog ! k)
         \<and> scheduledArrival (upd ! k) = scheduledArrival (sampleLog ! k)
         \<and> actualDeparture (upd ! k) = actualDeparture (sampleLog ! k)
         \<and> actualArrival (upd ! k) = actualArrival (sampleLog ! k)
         \<and> aircraft (upd ! k) = aircraft (sampleLog ! k)
         \<and> airportCode (upd ! k) = airportCode (sampleLog ! k)
         \<and> scheduledHour (upd ! k) = scheduledHour (sampleLog ! k)
         \<and> dayOfWeek (upd ! k) = dayOfWeek (sampleLog ! k)
         \<and> flightDuration (upd ! k) = flightDuration (sampleLog ! k)))"
proof -
  have h: "getFlightData quietLoader ''DEL'' 2000 2000 sampleProcessor 0 = (Inr sampleLog, sampleProcessor, 0)"
    by (rule getFlightData_sample)
  from realtime_frame [OF h, of sampleRandom 3000] show ?thesis
    using h selection_sample by blast
qed

end
